theory Spec2Isabelle
  imports Main "HOL-Library.AList" "HOL-Library.Sublist"
begin

text \<open>
  The citation processor of \<open>app.py\<close>: it reads the endnotes of a Word document, parses
  each one into citation fields, completes the fields from a search index, formats the
  citation in the chosen style, and writes the formatted text back into the document.
  The functions below follow the source function by function and keep its names; the
  properties come after all definitions.
\<close>

section \<open>Text\<close>

text \<open>
  A Python \<open>str\<close> is a sequence of code points. It is modelled by \<open>string\<close>: a
  \<open>char\<close> is a code point below 256, so the model covers text over that range. The
  character classes are the ones Python (\<open>str.isspace\<close>, \<open>str.isupper\<close>,
  \<open>str.lower\<close>, \<open>str.upper\<close>) and its \<open>re\<close> module (\<open>\s\<close>, \<open>\d\<close>,
  \<open>\w\<close> on \<open>str\<close> patterns) use, restricted to that range.
\<close>

definition isspace :: "char \<Rightarrow> bool" where
  "isspace c = (let n = (of_char c :: nat)
     in (9 \<le> n \<and> n \<le> 13) \<or> (28 \<le> n \<and> n \<le> 32) \<or> n = 133 \<or> n = 160)"

definition isdecimal :: "char \<Rightarrow> bool" where
  "isdecimal c = (let n = (of_char c :: nat) in 48 \<le> n \<and> n \<le> 57)"

text \<open>\<open>\w\<close>: alphanumeric or the underscore.\<close>

definition isword :: "char \<Rightarrow> bool" where
  "isword c = (let n = (of_char c :: nat)
     in (48 \<le> n \<and> n \<le> 57) \<or> (65 \<le> n \<and> n \<le> 90) \<or> n = 95 \<or> (97 \<le> n \<and> n \<le> 122)
      \<or> n = 170 \<or> n = 178 \<or> n = 179 \<or> n = 181 \<or> n = 185 \<or> n = 186
      \<or> (188 \<le> n \<and> n \<le> 190) \<or> (192 \<le> n \<and> n \<le> 214) \<or> (216 \<le> n \<and> n \<le> 246)
      \<or> 248 \<le> n)"

definition isupper :: "char \<Rightarrow> bool" where
  "isupper c = (let n = (of_char c :: nat)
     in (65 \<le> n \<and> n \<le> 90) \<or> (192 \<le> n \<and> n \<le> 214) \<or> (216 \<le> n \<and> n \<le> 222))"

definition lower_char :: "char \<Rightarrow> char" where
  "lower_char c = (if isupper c then char_of (of_char c + (32 :: nat)) else c)"

text \<open>
  \<open>str.upper\<close> maps the sharp s (223) to two letters. The upper-case forms of the micro
  sign (181) and of y with diaeresis (255) lie beyond code point 255; the model leaves
  these two characters as they are.
\<close>

definition upper_char :: "char \<Rightarrow> string" where
  "upper_char c = (let n = (of_char c :: nat)
     in if (97 \<le> n \<and> n \<le> 122) \<or> (224 \<le> n \<and> n \<le> 246) \<or> (248 \<le> n \<and> n \<le> 254)
        then [char_of (n - 32)]
        else if n = 223 then ''SS'' else [c])"

definition lower :: "string \<Rightarrow> string" where
  "lower s = map lower_char s"

definition upper :: "string \<Rightarrow> string" where
  "upper s = concat (map upper_char s)"

definition lstrip :: "string \<Rightarrow> string" where
  "lstrip s = dropWhile isspace s"

definition rstrip :: "string \<Rightarrow> string" where
  "rstrip s = rev (dropWhile isspace (rev s))"

definition strip :: "string \<Rightarrow> string" where
  "strip s = rstrip (lstrip s)"

text \<open>\<open>s.split(sep)\<close> for a separator of one character: never an empty list.\<close>

fun split_on :: "char \<Rightarrow> string \<Rightarrow> string list" where
  "split_on sep [] = [[]]"
| "split_on sep (c # cs) =
     (let parts = split_on sep cs
      in if c = sep then [] # parts else (c # hd parts) # tl parts)"

text \<open>\<open>sep.join(parts)\<close>.\<close>

fun join :: "string \<Rightarrow> string list \<Rightarrow> string" where
  "join sep [] = []"
| "join sep [p] = p"
| "join sep (p # q # ps) = p @ sep @ join sep (q # ps)"

text \<open>\<open>needle in hay\<close> on strings.\<close>

fun contains :: "string \<Rightarrow> string \<Rightarrow> bool" where
  "contains [] needle = (needle = [])"
| "contains (c # rest) needle = (prefix needle (c # rest) \<or> contains rest needle)"


section \<open>Exceptions and values\<close>

datatype py_error =
    IndexError | KeyError | AttributeError | TypeError | ValueError
  | ExpatError | UnicodeDecodeError | IsADirectoryError | BadZipFile
  | RequestException | JSONDecodeError

text \<open>
  The values that the fields of a citation can hold: \<open>None\<close> and the texts that
  parsing finds, and whatever \<open>response.json()\<close> gives for the answer of the search
  index: \<open>None\<close>, a truth value, a number, a text, a list, or a dictionary with texts as
  keys. A \<open>float\<close> is given by the text that \<open>str\<close> and \<open>repr\<close> give for it.
\<close>

datatype py_value =
    PyNone
  | PyBool bool
  | PyInt int
  | PyFloat string
  | PyStr string
  | PyList "py_value list"
  | PyDict "(string \<times> py_value) list"

text \<open>
  The truth value of a value (\<open>if v\<close>, \<open>not v\<close>, \<open>v or w\<close>): \<open>None\<close>, \<open>False\<close>,
  zero, the empty text, the empty list and the empty dictionary are false.
\<close>

definition truthy :: "py_value \<Rightarrow> bool" where
  "truthy v =
     (case v of
        PyNone \<Rightarrow> False
      | PyBool b \<Rightarrow> b
      | PyInt n \<Rightarrow> n \<noteq> 0
      | PyFloat digits \<Rightarrow> digits \<noteq> ''0.0'' \<and> digits \<noteq> ''-0.0''
      | PyStr s \<Rightarrow> s \<noteq> []
      | PyList xs \<Rightarrow> xs \<noteq> []
      | PyDict d \<Rightarrow> d \<noteq> [])"

text \<open>\<open>str(n)\<close> for an integer.\<close>

fun str_nat :: "nat \<Rightarrow> string" where
  "str_nat n =
     (if n < 10 then [char_of (48 + n)]
      else str_nat (n div 10) @ [char_of (48 + n mod 10)])"

declare str_nat.simps [simp del]

definition str_int :: "int \<Rightarrow> string" where
  "str_int n = (if n < 0 then ''-'' @ str_nat (nat (- n)) else str_nat (nat n))"

text \<open>
  \<open>repr(s)\<close> for a text. The quote is the single quote, unless the text has a single
  quote and no double quote. The backslash and the quote are escaped, tab, newline and
  carriage return are written \<open>\t\<close>, \<open>\n\<close>, \<open>\r\<close>, and every other character that
  is not printable is written \<open>\xhh\<close>. Below 256 the printable characters are 32 to 126,
  161 to 172 and 174 to 255.
\<close>

definition isprintable :: "char \<Rightarrow> bool" where
  "isprintable c = (let n = (of_char c :: nat)
     in (32 \<le> n \<and> n \<le> 126) \<or> (161 \<le> n \<and> n \<le> 172) \<or> 174 \<le> n)"

definition hex_digit :: "nat \<Rightarrow> char" where
  "hex_digit n = (if n < 10 then char_of (48 + n) else char_of (87 + n))"

definition repr_char :: "char \<Rightarrow> char \<Rightarrow> string" where
  "repr_char quote c =
     (if c = quote \<or> c = CHR 0x5C then [CHR 0x5C, c]
      else if c = CHR 0x09 then [CHR 0x5C, CHR ''t'']
      else if c = CHR 0x0A then [CHR 0x5C, CHR ''n'']
      else if c = CHR 0x0D then [CHR 0x5C, CHR ''r'']
      else if isprintable c then [c]
      else [CHR 0x5C, CHR ''x'', hex_digit (of_char c div 16), hex_digit (of_char c mod 16)])"

definition repr_str :: "string \<Rightarrow> string" where
  "repr_str s =
     (let quote = (if CHR 0x27 \<in> set s \<and> CHR 0x22 \<notin> set s then CHR 0x22 else CHR 0x27)
      in [quote] @ concat (map (repr_char quote) s) @ [quote])"

text \<open>
  \<open>repr(v)\<close>: a list and a dictionary write their items with \<open>repr\<close>, separated by a
  comma and a space.
\<close>

primrec py_repr :: "py_value \<Rightarrow> string" where
  "py_repr PyNone = ''None''"
| "py_repr (PyBool b) = (if b then ''True'' else ''False'')"
| "py_repr (PyInt n) = str_int n"
| "py_repr (PyFloat digits) = digits"
| "py_repr (PyStr s) = repr_str s"
| "py_repr (PyList xs) = ''['' @ join '', '' (map py_repr xs) @ '']''"
| "py_repr (PyDict d) =
     ''{'' @ join '', '' (map (\<lambda>(k, r). repr_str k @ '': '' @ r) (map (map_prod id py_repr) d))
     @ ''}''"

text \<open>
  \<open>str(v)\<close>, which is also what an f-string writes for \<open>{v}\<close>: a text is written as it
  is, every other value as \<open>repr\<close> writes it.
\<close>

definition py_str :: "py_value \<Rightarrow> string" where
  "py_str v = (case v of PyStr s \<Rightarrow> s | _ \<Rightarrow> py_repr v)"

text \<open>
  \<open>v.get(k, otherwise)\<close>: only a dictionary has the method, and a key that is present
  gives its value even when that is \<open>None\<close>.
\<close>

definition py_get :: "py_value \<Rightarrow> string \<Rightarrow> py_value \<Rightarrow> py_error + py_value" where
  "py_get v k otherwise =
     (case v of
        PyDict d \<Rightarrow> Inr (case map_of d k of Some x \<Rightarrow> x | None \<Rightarrow> otherwise)
      | _ \<Rightarrow> Inl AttributeError)"

text \<open>\<open>len(v)\<close>: of a text, a list or a dictionary.\<close>

definition py_len :: "py_value \<Rightarrow> py_error + nat" where
  "py_len v =
     (case v of
        PyStr s \<Rightarrow> Inr (length s)
      | PyList xs \<Rightarrow> Inr (length xs)
      | PyDict d \<Rightarrow> Inr (length d)
      | _ \<Rightarrow> Inl TypeError)"

text \<open>
  \<open>v[0]\<close>: the first item of a list, the first character of a text; a dictionary, whose
  keys are texts, has no key \<open>0\<close>; the other values cannot be indexed.
\<close>

definition py_first :: "py_value \<Rightarrow> py_error + py_value" where
  "py_first v =
     (case v of
        PyList xs \<Rightarrow> (case xs of [] \<Rightarrow> Inl IndexError | x # _ \<Rightarrow> Inr x)
      | PyStr s \<Rightarrow> (case s of [] \<Rightarrow> Inl IndexError | c # _ \<Rightarrow> Inr (PyStr [c]))
      | PyDict d \<Rightarrow> Inl KeyError
      | _ \<Rightarrow> Inl TypeError)"

text \<open>\<open>s + v\<close> for a text \<open>s\<close>: only a text can be appended to a text.\<close>

definition concat_str :: "string \<Rightarrow> py_value \<Rightarrow> py_error + string" where
  "concat_str s v = (case v of PyStr t \<Rightarrow> Inr (s @ t) | _ \<Rightarrow> Inl TypeError)"

text \<open>
  A \<open>dict\<close> whose keys are texts is an association list in insertion order; \<open>d[k] = v\<close>
  is \<open>AList.update k v d\<close> (an existing key keeps its place, a new one goes to the end)
  and a lookup is \<open>map_of d k\<close>. Citation data is such a dictionary, from the name of a
  field to its value.
\<close>

type_synonym citation = "(string \<times> py_value) list"

text \<open>\<open>d.get(k)\<close>: \<open>None\<close> also for a missing key.\<close>

definition dict_get :: "citation \<Rightarrow> string \<Rightarrow> py_value" where
  "dict_get d k = (case map_of d k of None \<Rightarrow> PyNone | Some v \<Rightarrow> v)"

text \<open>\<open>v or ''\<close>.\<close>

definition or_empty :: "py_value \<Rightarrow> py_value" where
  "or_empty v = (if truthy v then v else PyStr [])"

text \<open>\<open>d.get(k, '') or ''\<close>.\<close>

definition get_or_empty :: "citation \<Rightarrow> string \<Rightarrow> py_value" where
  "get_or_empty d k = or_empty (case map_of d k of Some v \<Rightarrow> v | None \<Rightarrow> PyStr [])"

section \<open>Parsing an endnote\<close>

text \<open>
  \<open>re.sub(r'^\s*\d+\s*', '', text)\<close>: the pattern can match at the start only, and there
  it takes all leading white space, then all digits (at least one), then all white space.
  The classes are disjoint, so the greedy match is the only one.
\<close>

definition strip_label :: "string \<Rightarrow> string" where
  "strip_label s =
     (let after_space = dropWhile isspace s
      in if takeWhile isdecimal after_space = [] then s
         else dropWhile isspace (dropWhile isdecimal after_space))"

text \<open>
  \<open>\b\<close> between the character before (if any) and the character after (if any): exactly
  one of the two is a word character.
\<close>

definition word_boundary :: "char option \<Rightarrow> char option \<Rightarrow> bool" where
  "word_boundary prev nxt =
     ((case prev of None \<Rightarrow> False | Some c \<Rightarrow> isword c)
      \<noteq> (case nxt of None \<Rightarrow> False | Some c \<Rightarrow> isword c))"

definition first_char :: "string \<Rightarrow> char option" where
  "first_char s = (case s of [] \<Rightarrow> None | c # _ \<Rightarrow> Some c)"

text \<open>
  \<open>\b(19|20)\d{2}\b\<close> matched at the start of \<open>s\<close>, where \<open>prev\<close> is the character
  in front of \<open>s\<close>: the match is the first four characters.
\<close>

definition year_here :: "char option \<Rightarrow> string \<Rightarrow> string option" where
  "year_here prev s =
     (case s of
        a # b # c # d # rest \<Rightarrow>
          if word_boundary prev (Some a)
             \<and> ([a, b] = ''19'' \<or> [a, b] = ''20'')
             \<and> isdecimal c \<and> isdecimal d
             \<and> word_boundary (Some d) (first_char rest)
          then Some [a, b, c, d] else None
      | _ \<Rightarrow> None)"

text \<open>\<open>re.search\<close>: the match at the leftmost position that has one.\<close>

fun year_search :: "char option \<Rightarrow> string \<Rightarrow> string option" where
  "year_search prev [] = None"
| "year_search prev (c # cs) =
     (case year_here prev (c # cs) of
        Some y \<Rightarrow> Some y
      | None \<Rightarrow> year_search (Some c) cs)"

text \<open>
  \<open>\b(\d+(?:-\d+)?)\s*\.?\s*$\<close> matched at the start of \<open>s\<close>; the result is group 1.
  Each part is greedy and giving characters back never helps: after a shorter run of
  digits or of white space the next character is of that same class, which no later part
  of the pattern accepts, and the optional parts, when they can match, stand before a
  character that nothing else accepts. The white space before \<open>$\<close> is taken to the end
  of the text, so \<open>$\<close> is the end of the text.
\<close>

definition page_here :: "char option \<Rightarrow> string \<Rightarrow> string option" where
  "page_here prev s =
     (let digits = takeWhile isdecimal s;
          rest = dropWhile isdecimal s;
          more = (case rest of
                    c # r \<Rightarrow> if c = CHR ''-'' then takeWhile isdecimal r else []
                  | [] \<Rightarrow> []);
          (group, rest) = (if more = [] then (digits, rest)
                           else (digits @ ''-'' @ more, drop (1 + length more) rest));
          rest = dropWhile isspace rest;
          rest = (case rest of c # r \<Rightarrow> if c = CHR ''.'' then r else rest | [] \<Rightarrow> rest);
          rest = dropWhile isspace rest
      in if word_boundary prev (first_char s) \<and> digits \<noteq> [] \<and> rest = []
         then Some group else None)"

fun page_search :: "char option \<Rightarrow> string \<Rightarrow> string option" where
  "page_search prev [] = None"
| "page_search prev (c # cs) =
     (case page_here prev (c # cs) of
        Some p \<Rightarrow> Some p
      | None \<Rightarrow> page_search (Some c) cs)"

text \<open>
  The quote marks of the title pattern. Its curly quotes (code points 201C, 201D, 2018,
  2019) lie beyond the range of \<open>char\<close> and cannot occur in the text modelled here.
\<close>

definition isquote :: "char \<Rightarrow> bool" where
  "isquote c = (c = CHR 0x22 \<or> c = CHR 0x27)"

text \<open>
  \<open>re.sub(r'^[q]+|[q]+$', '', title)\<close>, for \<open>[q]\<close> the quote marks: the leading run and
  the trailing run of quote marks go. The title has been stripped, so it does not end in a
  newline and \<open>$\<close> is the end of the text.
\<close>

definition strip_quotes :: "string \<Rightarrow> string" where
  "strip_quotes s = rev (dropWhile isquote (rev (dropWhile isquote s)))"

text \<open>
  The source assigns the working copy to its parameter \<open>text\<close>. Here \<open>text0\<close> is the
  text passed in and \<open>text\<close> is the variable after that assignment, which is what
  everything below reads, the entry \<open>original_text\<close> included.
\<close>

definition parse_endnote_text :: "string \<Rightarrow> citation" where
  "parse_endnote_text text0 =
     (let text = strip (strip_label text0);
          citation_data =
            [(''author'', PyNone), (''title'', PyNone), (''publisher'', PyNone), (''place'', PyNone),
             (''year'', PyNone), (''page'', PyNone), (''original_text'', PyStr text)];
          citation_data =
            (case year_search None text of
               Some y \<Rightarrow> AList.update ''year'' (PyStr y) citation_data
             | None \<Rightarrow> citation_data);
          citation_data =
            (case page_search None text of
               Some p \<Rightarrow> AList.update ''page'' (PyStr p) citation_data
             | None \<Rightarrow> citation_data);
          parts = split_on CHR '','' text
      in if length parts \<ge> 2 then
           (let potential_author = strip (parts ! 0);
                citation_data =
                  (if (case potential_author of [] \<Rightarrow> False | c # _ \<Rightarrow> isupper c)
                   then AList.update ''author'' (PyStr potential_author) citation_data
                   else citation_data);
                potential_title = strip_quotes (strip (parts ! 1))
            in if potential_title \<noteq> []
               then AList.update ''title'' (PyStr potential_title) citation_data
               else citation_data)
         else citation_data)"


section \<open>Formatting a citation\<close>

text \<open>
  The fields are read with \<open>d.get(k, '') or ''\<close>, so each one is a value that is true
  or the empty text. An f-string and \<open>str\<close> write any value; \<open>citation += v\<close> raises
  \<open>TypeError\<close> when \<open>v\<close> is not a text.
\<close>

definition format_chicago :: "citation \<Rightarrow> py_error + string" where
  "format_chicago citation_data =
     (let author = get_or_empty citation_data ''author'';
          title = get_or_empty citation_data ''title'';
          place = get_or_empty citation_data ''place'';
          publisher = get_or_empty citation_data ''publisher'';
          year = get_or_empty citation_data ''year'';
          page = get_or_empty citation_data ''page'';
          citation = py_str author @ '', <em>'' @ py_str title @ ''</em>''
      in case (if truthy place \<or> truthy publisher \<or> truthy year then
                 (let citation = citation @ '' (''
                  in case (if truthy place then
                             (case concat_str citation place of
                                Inl e \<Rightarrow> Inl e
                              | Inr citation \<Rightarrow>
                                  Inr (if truthy publisher \<or> truthy year then citation @ '': ''
                                       else citation))
                           else Inr citation) of
                       Inl e \<Rightarrow> Inl e
                     | Inr citation \<Rightarrow>
                         (case (if truthy publisher then
                                  (case concat_str citation publisher of
                                     Inl e \<Rightarrow> Inl e
                                   | Inr citation \<Rightarrow>
                                       Inr (if truthy year then citation @ '', '' else citation))
                                else Inr citation) of
                            Inl e \<Rightarrow> Inl e
                          | Inr citation \<Rightarrow>
                              (let citation =
                                     (if truthy year then citation @ py_str year else citation)
                               in Inr (citation @ '')''))))
               else Inr citation) of
           Inl e \<Rightarrow> Inl e
         | Inr citation \<Rightarrow>
             (let citation = (if truthy page then citation @ '', '' @ py_str page else citation)
              in Inr (citation @ ''.'')))"

text \<open>\<open>author.split(' ')\<close>: only a text has the method.\<close>

definition py_split :: "py_value \<Rightarrow> char \<Rightarrow> py_error + string list" where
  "py_split v sep = (case v of PyStr s \<Rightarrow> Inr (split_on sep s) | _ \<Rightarrow> Inl AttributeError)"

definition format_mla :: "citation \<Rightarrow> py_error + string" where
  "format_mla citation_data =
     (let author = get_or_empty citation_data ''author'';
          title = get_or_empty citation_data ''title'';
          publisher = get_or_empty citation_data ''publisher'';
          year = get_or_empty citation_data ''year'';
          page = get_or_empty citation_data ''page''
      in case (if truthy author then
                 (case py_split author CHR '' '' of
                    Inl e \<Rightarrow> Inl e
                  | Inr author_parts \<Rightarrow>
                      if length author_parts \<ge> 2
                      then Inr (last author_parts @ '', '' @ join '' '' (butlast author_parts))
                      else Inr (py_str author))
               else Inr (py_str author)) of
           Inl e \<Rightarrow> Inl e
         | Inr author \<Rightarrow>
             (let citation = author @ ''. <em>'' @ py_str title @ ''</em>'';
                  citation =
                    (if truthy publisher then citation @ ''. '' @ py_str publisher else citation);
                  citation = (if truthy year then citation @ '', '' @ py_str year else citation);
                  citation = (if truthy page then citation @ '', pp. '' @ py_str page else citation)
              in Inr (citation @ ''.'')))"

text \<open>\<open>[p[0] for p in parts]\<close>: indexing an empty text raises \<open>IndexError\<close>.\<close>

fun first_chars :: "string list \<Rightarrow> py_error + string list" where
  "first_chars [] = Inr []"
| "first_chars (p # ps) =
     (case p of
        [] \<Rightarrow> Inl IndexError
      | c # _ \<Rightarrow> (case first_chars ps of Inl e \<Rightarrow> Inl e | Inr cs \<Rightarrow> Inr ([c] # cs)))"

definition format_apa :: "citation \<Rightarrow> py_error + string" where
  "format_apa citation_data =
     (let author = get_or_empty citation_data ''author'';
          title = get_or_empty citation_data ''title'';
          place = get_or_empty citation_data ''place'';
          publisher = get_or_empty citation_data ''publisher'';
          year = get_or_empty citation_data ''year'';
          page = get_or_empty citation_data ''page''
      in case (if truthy author then
                 (case py_split author CHR '' '' of
                    Inl e \<Rightarrow> Inl e
                  | Inr author_parts \<Rightarrow>
                      if length author_parts \<ge> 2 then
                        (case first_chars (butlast author_parts) of
                           Inl e \<Rightarrow> Inl e
                         | Inr firsts \<Rightarrow>
                             (let initials = join ''. '' firsts @ ''.''
                              in Inr (last author_parts @ '', '' @ initials)))
                      else Inr (py_str author))
               else Inr (py_str author)) of
           Inl e \<Rightarrow> Inl e
         | Inr author \<Rightarrow>
             (let citation = author;
                  citation =
                    (if truthy year then citation @ '' ('' @ py_str year @ '').'' else citation);
                  citation = citation @ '' <em>'' @ py_str title @ ''</em>'';
                  citation =
                    (if truthy place \<and> truthy publisher
                     then citation @ ''. '' @ py_str place @ '': '' @ py_str publisher
                     else if truthy publisher then citation @ ''. '' @ py_str publisher
                     else citation);
                  citation = (if truthy page then citation @ '', pp. '' @ py_str page else citation)
              in Inr (citation @ ''.'')))"

text \<open>\<open>title.upper()\<close>: only a text has the method.\<close>

definition py_upper :: "py_value \<Rightarrow> py_error + string" where
  "py_upper v = (case v of PyStr s \<Rightarrow> Inr (upper s) | _ \<Rightarrow> Inl AttributeError)"

definition format_bluebook :: "citation \<Rightarrow> py_error + string" where
  "format_bluebook citation_data =
     (let author = get_or_empty citation_data ''author'';
          title = get_or_empty citation_data ''title'';
          publisher = get_or_empty citation_data ''publisher'';
          year = get_or_empty citation_data ''year'';
          page = get_or_empty citation_data ''page'';
          citation = (if truthy author then py_str author @ '', '' else [])
      in case (if truthy title then py_upper title else Inr ''UNTITLED'') of
           Inl e \<Rightarrow> Inl e
         | Inr heading \<Rightarrow>
             (let citation = citation @ heading;
                  citation = (if truthy page then citation @ '' '' @ py_str page else citation)
              in if truthy publisher \<or> truthy year then
                   (let citation = citation @ '' (''
                    in case (if truthy publisher then concat_str citation publisher
                             else Inr citation) of
                         Inl e \<Rightarrow> Inl e
                       | Inr citation \<Rightarrow>
                           (let citation =
                                  (if truthy publisher \<and> truthy year then citation @ '' ''
                                   else citation);
                                citation =
                                  (if truthy year then citation @ py_str year else citation);
                                citation = citation @ '')''
                            in Inr (citation @ ''.'')))
                 else Inr (citation @ ''.'')))"

definition format_citation :: "citation \<Rightarrow> string \<Rightarrow> py_error + string" where
  "format_citation citation_data style =
     (if style = ''chicago'' then format_chicago citation_data
      else if style = ''mla'' then format_mla citation_data
      else if style = ''apa'' then format_apa citation_data
      else if style = ''bluebook'' then format_bluebook citation_data
      else format_chicago citation_data)"

section \<open>Looking a citation up\<close>

definition PUBLISHER_PLACE_MAP :: "(string \<times> string) list" where
  "PUBLISHER_PLACE_MAP =
     [(''Harvard University Press'', ''Cambridge''),
      (''MIT Press'', ''Cambridge''),
      (''Yale University Press'', ''New Haven''),
      (''Princeton University Press'', ''Princeton''),
      (''Stanford University Press'', ''Stanford''),
      (''University of California Press'', ''Berkeley''),
      (''University of Chicago Press'', ''Chicago''),
      (''Columbia University Press'', ''New York''),
      (''Cornell University Press'', ''Ithaca''),
      (''Duke University Press'', ''Durham''),
      (''Johns Hopkins University Press'', ''Baltimore''),
      (''Oxford University Press'', ''Oxford''),
      (''Cambridge University Press'', ''Cambridge''),
      (''Penguin'', ''New York''),
      (''Random House'', ''New York''),
      (''HarperCollins'', ''New York''),
      (''Simon & Schuster'', ''New York'')]"

text \<open>
  A publisher that is false gives the empty text. Otherwise the loop calls
  \<open>publisher.lower()\<close> for the first entry of the table already, which raises
  \<open>AttributeError\<close> when the publisher is not a text.
\<close>

definition infer_place_from_publisher :: "py_value \<Rightarrow> py_error + string" where
  "infer_place_from_publisher publisher =
     (if \<not> truthy publisher then Inr []
      else (case publisher of
              PyStr name \<Rightarrow>
                (case find (\<lambda>(pub, place). contains (lower name) (lower pub)
                                           \<or> contains (lower pub) (lower name))
                        PUBLISHER_PLACE_MAP of
                   Some (pub, place) \<Rightarrow> Inr place
                 | None \<Rightarrow> Inr [])
            | _ \<Rightarrow> Inl AttributeError))"

text \<open>
  The search index is outside the program. What \<open>requests.get\<close> does with a query is
  given: it raises (a timeout, a transport failure), or it returns a response with its
  \<open>ok\<close> flag and its body. The body is not JSON (then \<open>response.json()\<close> raises), or
  it is, and \<open>response.json()\<close> gives its value: any value, of any shape.
\<close>

datatype body = NotJson | Json py_value

datatype http = Raises py_error | Response bool body

text \<open>
  \<open>doc.get(key, [None])[0] if doc.get(key) else otherwise\<close>. When \<open>doc.get(key)\<close>
  is true the key is present, and \<open>doc.get(key, [None])\<close> is that same value.
\<close>

definition first_or :: "py_value \<Rightarrow> string \<Rightarrow> py_value \<Rightarrow> py_error + py_value" where
  "first_or doc key otherwise =
     (case py_get doc key PyNone of
        Inl e \<Rightarrow> Inl e
      | Inr listed \<Rightarrow> if truthy listed then py_first listed else Inr otherwise)"

text \<open>
  The body of the \<open>try\<close> block gives an exception or the value returned; the handler
  catches every exception, prints it, and the function returns \<open>None\<close>. In the
  condition \<open>data.get('docs') and len(data['docs']) > 0\<close> the length is taken only when
  \<open>data.get('docs')\<close> is true, and then \<open>data\<close> is a dictionary with that key, so
  \<open>data['docs']\<close> is the same value.
\<close>

definition lookup_attempt ::
    "(string \<Rightarrow> http) \<Rightarrow> py_value \<Rightarrow> py_value \<Rightarrow> py_error + citation option" where
  "lookup_attempt requests_get author title =
     (let query = strip (py_str (or_empty author) @ '' '' @ py_str (or_empty title))
      in case requests_get query of
           Raises e \<Rightarrow> Inl e
         | Response ok content \<Rightarrow>
             if ok then
               (case content of
                  NotJson \<Rightarrow> Inl JSONDecodeError
                | Json data \<Rightarrow>
                    (case py_get data ''docs'' PyNone of
                       Inl e \<Rightarrow> Inl e
                     | Inr docs \<Rightarrow>
                         if truthy docs then
                           (case py_len docs of
                              Inl e \<Rightarrow> Inl e
                            | Inr n \<Rightarrow>
                                if n > 0 then
                                  (case py_first docs of
                                     Inl e \<Rightarrow> Inl e
                                   | Inr doc \<Rightarrow>
                          (case first_or doc ''author_name'' author of
                             Inl e \<Rightarrow> Inl e
                           | Inr found_author \<Rightarrow>
                          (case py_get doc ''title'' title of
                             Inl e \<Rightarrow> Inl e
                           | Inr found_title \<Rightarrow>
                          (case first_or doc ''publisher'' PyNone of
                             Inl e \<Rightarrow> Inl e
                           | Inr found_publisher \<Rightarrow>
                          (case first_or doc ''publish_place'' PyNone of
                             Inl e \<Rightarrow> Inl e
                           | Inr found_place \<Rightarrow>
                          (case py_get doc ''first_publish_year'' PyNone of
                             Inl e \<Rightarrow> Inl e
                           | Inr found_year \<Rightarrow>
                               (let citation_data =
                                      [(''author'', found_author),
                                       (''title'', found_title),
                                       (''publisher'', found_publisher),
                                       (''place'', found_place),
                                       (''year'', found_year)]
                                in if \<not> truthy (dict_get citation_data ''place'')
                                      \<and> truthy (dict_get citation_data ''publisher'')
                                   then
                                     (case infer_place_from_publisher
                                             (dict_get citation_data ''publisher'') of
                                        Inl e \<Rightarrow> Inl e
                                      | Inr place \<Rightarrow>
                                          Inr (Some (AList.update ''place'' (PyStr place)
                                                       citation_data)))
                                   else Inr (Some citation_data))))))))
                                else Inr None)
                         else Inr None))
             else Inr None)"

definition lookup_citation ::
    "(string \<Rightarrow> http) \<Rightarrow> py_value \<Rightarrow> py_value \<Rightarrow> citation option" where
  "lookup_citation requests_get author title =
     (if \<not> (truthy author \<or> truthy title) then None
      else (case lookup_attempt requests_get author title of
              Inl e \<Rightarrow> None
            | Inr found \<Rightarrow> found))"
section \<open>The endnotes part as a DOM tree\<close>

text \<open>
  \<open>minidom.parseString\<close> gives a tree of nodes. An element has a tag name, attributes and
  children; every other child of an element (text, CDATA section, comment, processing
  instruction) carries a \<open>nodeValue\<close> and has no children. An element's \<open>nodeValue\<close> is
  \<open>None\<close>.
\<close>

datatype node = Element string "(string \<times> string) list" "node list" | Data string

text \<open>
  The program holds references to nodes and changes node values through them. A reference
  is the path from the root element: the child indices on the way down.
\<close>

type_synonym ref = "nat list"

fun node_at :: "node \<Rightarrow> ref \<Rightarrow> node option" where
  "node_at n [] = Some n"
| "node_at n (i # r) =
     (case n of
        Element _ _ cs \<Rightarrow> if i < length cs then node_at (cs ! i) r else None
      | Data _ \<Rightarrow> None)"

text \<open>
  The elements named \<open>name\<close> in a subtree, its root included, in document order;
  \<open>tagged_from name i cs\<close> does the same for the children \<open>cs\<close>, the first of which is
  child number \<open>i\<close>.
\<close>

fun tagged :: "string \<Rightarrow> node \<Rightarrow> ref list"
  and tagged_from :: "string \<Rightarrow> nat \<Rightarrow> node list \<Rightarrow> ref list" where
  "tagged name (Element n a cs) = (if n = name then [[]] else []) @ tagged_from name 0 cs"
| "tagged name (Data v) = []"
| "tagged_from name i [] = []"
| "tagged_from name i (c # cs) = map ((#) i) (tagged name c) @ tagged_from name (Suc i) cs"

text \<open>\<open>dom.getElementsByTagName(name)\<close> on the document: the root element counts.\<close>

definition getElementsByTagName :: "node \<Rightarrow> string \<Rightarrow> ref list" where
  "getElementsByTagName tree name = tagged name tree"

text \<open>\<open>e.getElementsByTagName(name)\<close> on an element: its descendants only.\<close>

definition getElementsByTagName_in :: "node \<Rightarrow> ref \<Rightarrow> string \<Rightarrow> ref list" where
  "getElementsByTagName_in tree e name =
     (case node_at tree e of
        Some (Element _ _ cs) \<Rightarrow> map ((@) e) (tagged_from name 0 cs)
      | _ \<Rightarrow> [])"

text \<open>\<open>e.getAttribute(name)\<close>: the empty text when the attribute is missing.\<close>

definition getAttribute :: "node \<Rightarrow> ref \<Rightarrow> string \<Rightarrow> string" where
  "getAttribute tree e name =
     (case node_at tree e of
        Some (Element _ attrs _) \<Rightarrow> (case map_of attrs name of Some v \<Rightarrow> v | None \<Rightarrow> [])
      | _ \<Rightarrow> [])"

definition firstChild :: "node \<Rightarrow> ref \<Rightarrow> ref option" where
  "firstChild tree e =
     (case node_at tree e of
        Some (Element _ _ (c # _)) \<Rightarrow> Some (e @ [0])
      | _ \<Rightarrow> None)"

definition nodeValue :: "node \<Rightarrow> ref \<Rightarrow> string option" where
  "nodeValue tree r = (case node_at tree r of Some (Data v) \<Rightarrow> Some v | _ \<Rightarrow> None)"

text \<open>
  \<open>node.nodeValue = v\<close>. On an element the assignment sets a Python attribute that is
  no part of the tree and is not written out: the tree stays as it is.
\<close>

fun set_nodeValue :: "ref \<Rightarrow> string \<Rightarrow> node \<Rightarrow> node" where
  "set_nodeValue [] v n = (case n of Data _ \<Rightarrow> Data v | Element _ _ _ \<Rightarrow> n)"
| "set_nodeValue (i # r) v n =
     (case n of
        Element name attrs cs \<Rightarrow>
          if i < length cs then Element name attrs (cs[i := set_nodeValue r v (cs ! i)]) else n
      | Data _ \<Rightarrow> n)"

text \<open>A loop whose body may raise: the first exception ends it.\<close>

fun fold_err :: "('a \<Rightarrow> 's \<Rightarrow> 'e + 's) \<Rightarrow> 'a list \<Rightarrow> 's \<Rightarrow> 'e + 's" where
  "fold_err f [] s = Inr s"
| "fold_err f (x # xs) s = (case f x s of Inl e \<Rightarrow> Inl e | Inr s' \<Rightarrow> fold_err f xs s')"

text \<open>
  The content of a file of the unpacked document is given by what reading it as UTF-8
  text and \<open>minidom.parseString\<close> make of it: the bytes are not UTF-8, or the text is
  not well-formed XML, or it parses to a tree.
\<close>

datatype part = NotUtf8 | NotXml | Xml node

text \<open>
  The unpacked document is a directory; what a directory holds under a name is a file or
  a directory again. A path is the list of the names on the way down; a name has no
  slash in it.
\<close>

datatype entry = File part | Directory "(string \<times> entry) list"

fun entry_at :: "entry \<Rightarrow> string list \<Rightarrow> entry option" where
  "entry_at item [] = Some item"
| "entry_at item (name # path) =
     (case item of
        File content \<Rightarrow> None
      | Directory items \<Rightarrow>
          (case map_of items name of
             None \<Rightarrow> None
           | Some below \<Rightarrow> entry_at below path))"

text \<open>
  \<open>open(path, 'w')\<close> and \<open>f.write(content)\<close> at the path of a file: the file gets the
  new content and everything else stays as it is.
\<close>

fun write_at :: "string list \<Rightarrow> part \<Rightarrow> entry \<Rightarrow> entry" where
  "write_at [] content item =
     (case item of File old \<Rightarrow> File content | Directory items \<Rightarrow> item)"
| "write_at (name # path) content item =
     (case item of
        File old \<Rightarrow> item
      | Directory items \<Rightarrow>
          (case map_of items name of
             None \<Rightarrow> item
           | Some below \<Rightarrow> Directory (AList.update name (write_at path content below) items)))"

text \<open>
  \<open>with open(path, 'r', encoding='utf-8') as f: content = f.read()\<close> on what is at
  the path.
\<close>

definition read_text :: "entry \<Rightarrow> py_error + part" where
  "read_text item =
     (case item of
        Directory items \<Rightarrow> Inl IsADirectoryError
      | File content \<Rightarrow>
          (case content of NotUtf8 \<Rightarrow> Inl UnicodeDecodeError | _ \<Rightarrow> Inr content))"

definition parseString :: "part \<Rightarrow> py_error + node" where
  "parseString content = (case content of Xml tree \<Rightarrow> Inr tree | _ \<Rightarrow> Inl ExpatError)"

section \<open>Reading and writing the endnotes\<close>

text \<open>\<open>t_elem.firstChild.nodeValue if t_elem.firstChild else ''\<close>.\<close>

definition text_of :: "node \<Rightarrow> ref \<Rightarrow> string option" where
  "text_of tree t_elem =
     (case firstChild tree t_elem of Some c \<Rightarrow> nodeValue tree c | None \<Rightarrow> Some [])"

text \<open>\<open>''.join(text_elements)\<close>: a \<open>None\<close> among the elements raises \<open>TypeError\<close>.\<close>

fun join_text :: "string option list \<Rightarrow> py_error + string" where
  "join_text [] = Inr []"
| "join_text (None # vs) = Inl TypeError"
| "join_text (Some v # vs) = (case join_text vs of Inl e \<Rightarrow> Inl e | Inr s \<Rightarrow> Inr (v @ s))"

text \<open>The body of the loop of \<open>extract_endnotes\<close>, for one \<open>w:endnote\<close> element.\<close>

definition extract_endnote ::
    "node \<Rightarrow> ref \<Rightarrow> (string \<times> string) list \<Rightarrow> py_error + (string \<times> string) list" where
  "extract_endnote tree endnote endnotes =
     (let endnote_id = getAttribute tree endnote ''w:id''
      in if endnote_id \<noteq> [] \<and> endnote_id \<notin> set [''-1'', ''0''] then
           (let text_elements = map (text_of tree) (getElementsByTagName_in tree endnote ''w:t'')
            in case join_text text_elements of
                 Inl e \<Rightarrow> Inl e
               | Inr full_text \<Rightarrow> Inr (AList.update endnote_id full_text endnotes))
         else Inr endnotes)"

text \<open>The argument is what the file system has at \<open>endnotes_path\<close>.\<close>

definition extract_endnotes :: "entry \<Rightarrow> py_error + (string \<times> string) list" where
  "extract_endnotes endnotes_file =
     (case read_text endnotes_file of
        Inl e \<Rightarrow> Inl e
      | Inr content \<Rightarrow>
          (case parseString content of
             Inl e \<Rightarrow> Inl e
           | Inr tree \<Rightarrow>
               fold_err (extract_endnote tree) (getElementsByTagName tree ''w:endnote'') []))"

text \<open>\<open>re.sub(r'<em>|</em>', '', text)\<close>.\<close>

fun strip_em :: "string \<Rightarrow> string" where
  "strip_em [] = []"
| "strip_em (c # cs) =
     (if prefix ''<em>'' (c # cs) then strip_em (drop 3 cs)
      else if prefix ''</em>'' (c # cs) then strip_em (drop 4 cs)
      else c # strip_em cs)"

text \<open>\<open>if t_elem.firstChild: t_elem.firstChild.nodeValue = ''\<close>.\<close>

definition clear_text :: "ref \<Rightarrow> node \<Rightarrow> node" where
  "clear_text t_elem tree =
     (case firstChild tree t_elem of Some c \<Rightarrow> set_nodeValue c [] tree | None \<Rightarrow> tree)"

text \<open>
  The body of the loop of \<open>update_endnotes_xml\<close>, for one \<open>w:endnote\<close> element. When the
  first \<open>w:t\<close> has no child, \<open>t_elem.firstChild\<close> is \<open>None\<close> and the assignment to its
  \<open>nodeValue\<close> raises \<open>AttributeError\<close>.
\<close>

definition update_endnote ::
    "(string \<times> string) list \<Rightarrow> ref \<Rightarrow> node \<Rightarrow> py_error + node" where
  "update_endnote formatted_endnotes endnote tree =
     (let endnote_id = getAttribute tree endnote ''w:id''
      in case map_of formatted_endnotes endnote_id of
           None \<Rightarrow> Inr tree
         | Some formatted_text \<Rightarrow>
             (let tree = fold clear_text (getElementsByTagName_in tree endnote ''w:t'') tree;
                  t_elements = getElementsByTagName_in tree endnote ''w:t''
              in case t_elements of
                   [] \<Rightarrow> Inr tree
                 | t_elem # _ \<Rightarrow>
                     (let formatted_text = strip_em formatted_text
                      in case firstChild tree t_elem of
                           None \<Rightarrow> Inl AttributeError
                         | Some c \<Rightarrow> Inr (set_nodeValue c formatted_text tree))))"


text \<open>
  The loop of \<open>update_endnotes_xml\<close> changes the tree in memory; then the function
  writes \<open>dom.toxml()\<close> to the file. What \<open>minidom\<close> writes for a tree is outside
  the program and is given by \<open>toxml\<close>: writing raises (a comment or a CDATA section
  was given a text it cannot hold), or it leaves a file, given like every file by what
  reading and parsing make of it. That need not be the tree written: a carriage return in
  a text is read back as a newline, a text with a control character leaves a file that is
  not well-formed, and a text node that was emptied is not written, so that it is gone
  when the file is read again. The result is the content of the file after the call.
\<close>

definition update_endnotes_xml ::
    "(node \<Rightarrow> py_error + part) \<Rightarrow> entry \<Rightarrow> (string \<times> string) list \<Rightarrow> py_error + part" where
  "update_endnotes_xml toxml endnotes_file formatted_endnotes =
     (case read_text endnotes_file of
        Inl e \<Rightarrow> Inl e
      | Inr content \<Rightarrow>
          (case parseString content of
             Inl e \<Rightarrow> Inl e
           | Inr tree \<Rightarrow>
               (case fold_err (update_endnote formatted_endnotes)
                       (getElementsByTagName tree ''w:endnote'') tree of
                  Inl e \<Rightarrow> Inl e
                | Inr tree \<Rightarrow> toxml tree)))"

section \<open>Processing a document\<close>

text \<open>
  The merge loop of \<open>process_document\<close>: for every item of the lookup result,
  \<open>if value and not parsed.get(key): parsed[key] = value\<close>.
\<close>

definition merge_item :: "string \<times> py_value \<Rightarrow> citation \<Rightarrow> citation" where
  "merge_item item parsed =
     (case item of (key, v) \<Rightarrow>
        if truthy v \<and> \<not> truthy (dict_get parsed key) then AList.update key v parsed
        else parsed)"

definition merge_lookup :: "citation \<Rightarrow> citation \<Rightarrow> citation" where
  "merge_lookup parsed lookup_result = fold merge_item lookup_result parsed"

record log_entry =
  log_id :: string
  log_original :: string
  log_formatted :: string

text \<open>
  What \<open>process_document\<close> returns: the success dictionary with the count and the log, or
  the failure dictionary, whose \<open>error\<close> is a fixed message or \<open>str(e)\<close> of the exception
  caught.
\<close>

datatype failure = Message string | Str_of py_error

datatype outcome = Success nat "log_entry list" | Failure failure

text \<open>The body of the loop over the extracted endnotes.\<close>

definition process_endnote ::
    "(string \<Rightarrow> http) \<Rightarrow> string \<Rightarrow> string \<times> string
      \<Rightarrow> (string \<times> string) list \<times> log_entry list
      \<Rightarrow> py_error + (string \<times> string) list \<times> log_entry list" where
  "process_endnote requests_get citation_style note state =
     (case (note, state) of ((note_id, note_text), (formatted_endnotes, processing_log)) \<Rightarrow>
        (let parsed = parse_endnote_text note_text;
             parsed =
               (if truthy (dict_get parsed ''author'') \<or> truthy (dict_get parsed ''title'') then
                  (case lookup_citation requests_get
                          (dict_get parsed ''author'') (dict_get parsed ''title'') of
                     Some lookup_result \<Rightarrow> merge_lookup parsed lookup_result
                   | None \<Rightarrow> parsed)
                else parsed)
         in case format_citation parsed citation_style of
              Inl e \<Rightarrow> Inl e
            | Inr formatted \<Rightarrow>
                Inr (AList.update note_id formatted formatted_endnotes,
                     processing_log @
                       [\<lparr>log_id = note_id, log_original = take 100 note_text,
                         log_formatted = take 100 formatted\<rparr>])))"

text \<open>
  The uploaded file is a zip archive, given by what the directory it unpacks to holds,
  or it is not (\<open>unpack_docx\<close> raises). The result is what \<open>process_document\<close>
  returns, and the directory that \<open>pack_docx\<close> packs into the archive at the output
  path, if the run gets that far.
\<close>

datatype upload = NotZip | Zip "(string \<times> entry) list"

definition process_document ::
    "(string \<Rightarrow> http) \<Rightarrow> (node \<Rightarrow> py_error + part) \<Rightarrow> upload \<Rightarrow> string \<Rightarrow> bool
      \<Rightarrow> outcome \<times> entry option" where
  "process_document requests_get toxml input_file citation_style use_incipit =
     (case input_file of
        NotZip \<Rightarrow> (Failure (Str_of BadZipFile), None)
      | Zip unpacked \<Rightarrow>
          (let temp_dir = Directory unpacked
           in case entry_at temp_dir [''word'', ''endnotes.xml''] of
                None \<Rightarrow> (Failure (Message ''No endnotes found in document''), None)
              | Some endnotes_file \<Rightarrow>
                  (case extract_endnotes endnotes_file of
                     Inl e \<Rightarrow> (Failure (Str_of e), None)
                   | Inr endnotes \<Rightarrow>
                       (case fold_err (process_endnote requests_get citation_style) endnotes
                               ([], []) of
                          Inl e \<Rightarrow> (Failure (Str_of e), None)
                        | Inr (formatted_endnotes, processing_log) \<Rightarrow>
                            (case update_endnotes_xml toxml endnotes_file formatted_endnotes of
                               Inl e \<Rightarrow> (Failure (Str_of e), None)
                             | Inr written \<Rightarrow>
                                 (Success (length formatted_endnotes) processing_log,
                                  Some (write_at [''word'', ''endnotes.xml''] written
                                          temp_dir)))))))"

section \<open>Notions used in the properties\<close>

text \<open>
  The layout of what the Chicago style writes after the title, stated as a rule, to
  compare \<open>format_chicago\<close> with. Of place, publisher and year the ones present form the
  group in parentheses, and there is no group when none is present; inside the group a
  part is followed by its separator (the colon after the place, the comma after the
  publisher) exactly when a later part of the group is present. The page, after a comma,
  is written when it is present. A full stop ends the citation.
\<close>

fun join_parts :: "(py_value \<times> string) list \<Rightarrow> string" where
  "join_parts [] = []"
| "join_parts [(part, sep)] = py_str part"
| "join_parts ((part, sep) # rest) = py_str part @ sep @ join_parts rest"

definition chicago_tail :: "citation \<Rightarrow> string" where
  "chicago_tail citation_data =
     (let present = filter (\<lambda>(part, sep). truthy part)
                      [(get_or_empty citation_data ''place'', '': ''),
                       (get_or_empty citation_data ''publisher'', '', ''),
                       (get_or_empty citation_data ''year'', [])]
      in (if present = [] then [] else '' ('' @ join_parts present @ '')'')
         @ (if truthy (get_or_empty citation_data ''page'')
            then '', '' @ py_str (get_or_empty citation_data ''page'') else [])
         @ ''.'')"

text \<open>
  The value is a text. Of a field as the formatting functions read it (\<open>get_or_empty\<close>)
  this says that the field holds a text or a value that is false.
\<close>

definition is_text :: "py_value \<Rightarrow> bool" where
  "is_text v = (case v of PyStr s \<Rightarrow> True | _ \<Rightarrow> False)"

text \<open>
  The shape of a tree: the tree with every node value blanked. Assigning node values
  changes a tree but not its shape, and which elements a tree has, their attributes and
  whether they have children depends on the shape only.
\<close>

fun skel :: "node \<Rightarrow> node" where
  "skel (Element n a cs) = Element n a (map skel cs)"
| "skel (Data v) = Data []"

text \<open>
  In the endnotes part of a Word document the \<open>w:endnote\<close> elements are the children of
  the root, so none of them lies inside another one.
\<close>

definition flat_notes :: "node \<Rightarrow> bool" where
  "flat_notes tree =
     (\<forall>e \<in> set (getElementsByTagName tree ''w:endnote'').
        \<forall>e' \<in> set (getElementsByTagName tree ''w:endnote''). prefix e e' \<longrightarrow> e = e')"

text \<open>
  A \<open>w:endnote\<close> element stands alone when it neither lies inside another
  \<open>w:endnote\<close> element nor has one inside it.
\<close>

definition stands_alone :: "node \<Rightarrow> ref \<Rightarrow> bool" where
  "stands_alone tree e =
     (\<forall>e' \<in> set (getElementsByTagName tree ''w:endnote'').
        e' \<noteq> e \<longrightarrow> \<not> prefix e' e \<and> \<not> prefix e e')"

text \<open>
  The root element of an endnotes part declares the prefix \<open>w\<close>; without the
  declaration the part is not well-formed.
\<close>

definition wordprocessingml :: string where
  "wordprocessingml = ''http://schemas.openxmlformats.org/wordprocessingml/2006/main''"

text \<open>
  An endnotes part as Word writes it: the two separator notes with the reserved ids, and
  two notes of the author.
\<close>

definition example_notes :: node where
  "example_notes =
     Element ''w:endnotes'' [(''xmlns:w'', wordprocessingml)]
       [Element ''w:endnote'' [(''w:type'', ''separator''), (''w:id'', ''-1'')]
          [Element ''w:p'' [] [Element ''w:r'' [] [Element ''w:separator'' [] []]]],
        Element ''w:endnote'' [(''w:type'', ''continuationSeparator''), (''w:id'', ''0'')]
          [Element ''w:p'' [] [Element ''w:r'' [] [Element ''w:t'' [] [Data ''more'']]]],
        Element ''w:endnote'' [(''w:id'', ''1'')]
          [Element ''w:p'' []
             [Element ''w:r'' [] [Element ''w:t'' [] [Data ''Smith, '']],
              Element ''w:r'' [] [Element ''w:t'' [] [Data ''Things, 1999, 42.'']]]],
        Element ''w:endnote'' [(''w:id'', ''2'')]
          [Element ''w:p'' [] [Element ''w:r'' [] [Element ''w:t'' [] [Data ''See above'']]]]]"

text \<open>A tree in which a note with a reserved id lies inside another note.\<close>

definition nested_notes :: node where
  "nested_notes =
     Element ''w:endnotes'' [(''xmlns:w'', wordprocessingml)]
       [Element ''w:endnote'' [(''w:id'', ''1'')]
          [Element ''w:endnote'' [(''w:id'', ''0'')]
             [Element ''w:t'' [] [Data ''more'']]]]"

text \<open>
  For the example documents used below, reading back the file that \<open>minidom\<close>
  writes for a tree gives the tree written without the text nodes that were left empty.
\<close>

fun without_empty_text :: "node \<Rightarrow> node" where
  "without_empty_text (Element n a cs) =
     Element n a (map without_empty_text (filter (\<lambda>c. c \<noteq> Data []) cs))"
| "without_empty_text (Data v) = Data v"

definition toxml_plain :: "node \<Rightarrow> py_error + part" where
  "toxml_plain tree = Inr (Xml (without_empty_text tree))"

text \<open>
  An endnotes part with one note, and an answer of the search index that is JSON of
  another shape than the program expects: the publisher is a list of numbers.
\<close>

definition one_note :: node where
  "one_note =
     Element ''w:endnotes'' [(''xmlns:w'', wordprocessingml)]
       [Element ''w:endnote'' [(''w:id'', ''1'')]
          [Element ''w:p'' [] [Element ''w:r'' [] [Element ''w:t'' [] [Data ''Smith, Things'']]]]]"

definition ill_typed_answer :: "string \<Rightarrow> http" where
  "ill_typed_answer query =
     Response True
       (Json (PyDict [(''docs'',
                PyList [PyDict [(''publisher'', PyList [PyInt 5]),
                                (''publish_place'', PyList [PyStr ''X''])]])]))"

section \<open>Properties of parsing\<close>

text \<open>
  For every text, parsing returns, and what it stores under \<open>original_text\<close> is the
  working copy: the text without its label and without the white space around it.
\<close>

lemma parse_original_text:
  "map_of (parse_endnote_text t) ''original_text'' = Some (PyStr (strip (strip_label t)))"
  by (simp add: parse_endnote_text_def Let_def update_conv' split: option.splits)

text \<open>
  Claim C1, at an input with a numeric label and surrounding white space: the text stored
  under \<open>original_text\<close> is the working copy, with the label and the white space
  removed, and not the text that was passed in.
\<close>

theorem parse_original_text_stripped:
  "dict_get (parse_endnote_text '' 12 Smith on Things '') ''original_text''
     = PyStr ''Smith on Things''"
  by code_simp

theorem parse_scenario_author_counterexample:
  "dict_get (parse_endnote_text ''1. Smith, John, A Study of Things, Acme Press, 1999, 42.'')
       ''author''
     \<noteq> PyStr ''Smith''"
  by code_simp

text \<open>
  Claim C8, as amended: on the text
  \<open>1. Smith, John, A Study of Things, Acme Press, 1999, 42.\<close> parsing finds no author
  (removing the label leaves the full stop in front, so the first segment starts with a
  character that is not upper case), the title \<open>John\<close>, the year \<open>1999\<close> and the
  page \<open>42\<close>.
\<close>

theorem parse_scenario:
  "dict_get (parse_endnote_text ''1. Smith, John, A Study of Things, Acme Press, 1999, 42.'')
       ''author'' = PyNone
   \<and> dict_get (parse_endnote_text ''1. Smith, John, A Study of Things, Acme Press, 1999, 42.'')
         ''title'' = PyStr ''John''
   \<and> dict_get (parse_endnote_text ''1. Smith, John, A Study of Things, Acme Press, 1999, 42.'')
         ''year'' = PyStr ''1999''
   \<and> dict_get (parse_endnote_text ''1. Smith, John, A Study of Things, Acme Press, 1999, 42.'')
         ''page'' = PyStr ''42''"
  by code_simp

section \<open>Properties of formatting\<close>

text \<open>
  When the fields hold texts, only the APA style can raise, and it raises exactly when the
  author has two or more parts and a part before the last is empty. With no field present
  every style returns a text that is not empty.
\<close>

lemma is_text_cases: "is_text v \<Longrightarrow> \<exists>s. v = PyStr s"
  by (cases v) (simp_all add: is_text_def)

lemma first_chars_raises: "first_chars ps = Inl e \<longleftrightarrow> e = IndexError \<and> [] \<in> set ps"
proof (induction ps)
  case Nil
  show ?case by simp
next
  case (Cons p ps)
  then show ?case by (cases p) (auto split: sum.splits)
qed

lemma format_apa_raises_iff:
  assumes "is_text (get_or_empty citation_data ''author'')"
  shows "format_apa citation_data = Inl e
     \<longleftrightarrow> e = IndexError
         \<and> length (split_on CHR '' '' (py_str (get_or_empty citation_data ''author''))) \<ge> 2
         \<and> [] \<in> set (butlast (split_on CHR '' '' (py_str (get_or_empty citation_data ''author''))))"
proof -
  from assms obtain s where s: "get_or_empty citation_data ''author'' = PyStr s"
    by (auto dest: is_text_cases)
  show ?thesis
  proof (cases "s = []")
    case True
    with s show ?thesis by (simp add: format_apa_def Let_def truthy_def py_str_def)
  next
    case False
    with s show ?thesis
      using first_chars_raises [of "butlast (split_on CHR '' '' s)" e]
      by (auto simp: format_apa_def Let_def truthy_def py_str_def py_split_def split: sum.splits)
  qed
qed

lemma concat_str_text: "is_text v \<Longrightarrow> concat_str s v = Inr (s @ py_str v)"
  by (cases v) (simp_all add: is_text_def concat_str_def py_str_def)

lemma format_chicago_tail:
  assumes "is_text (get_or_empty citation_data ''place'')"
    and "is_text (get_or_empty citation_data ''publisher'')"
  shows "format_chicago citation_data
     = Inr (py_str (get_or_empty citation_data ''author'') @ '', <em>''
            @ py_str (get_or_empty citation_data ''title'') @ ''</em>''
            @ chicago_tail citation_data)"
proof -
  let ?place = "get_or_empty citation_data ''place''"
  let ?publisher = "get_or_empty citation_data ''publisher''"
  let ?year = "get_or_empty citation_data ''year''"
  note defs = format_chicago_def chicago_tail_def concat_str_text [OF assms(1)]
    concat_str_text [OF assms(2)]
  show ?thesis
  proof (cases "truthy ?place")
    case no_place: False
    show ?thesis
    proof (cases "truthy ?publisher")
      case False
      with no_place show ?thesis
        by (cases "truthy ?year") (simp_all add: defs)
    next
      case True
      with no_place show ?thesis
        by (cases "truthy ?year") (simp_all add: defs)
    qed
  next
    case place: True
    show ?thesis
    proof (cases "truthy ?publisher")
      case False
      with place show ?thesis
        by (cases "truthy ?year") (simp_all add: defs)
    next
      case True
      with place show ?thesis
        by (cases "truthy ?year") (simp_all add: defs)
    qed
  qed
qed

lemma format_citation_other_styles:
  assumes "style \<noteq> ''apa''" and "\<And>k. is_text (get_or_empty citation_data k)"
  shows "\<exists>s. format_citation citation_data style = Inr s"
proof -
  have texts: "\<exists>s. get_or_empty citation_data k = PyStr s" for k
    using assms(2) by (rule is_text_cases)
  obtain a where a: "get_or_empty citation_data ''author'' = PyStr a" using texts by blast
  obtain t where t: "get_or_empty citation_data ''title'' = PyStr t" using texts by blast
  obtain p where p: "get_or_empty citation_data ''publisher'' = PyStr p" using texts by blast
  have chicago: "\<exists>s. format_chicago citation_data = Inr s"
    using format_chicago_tail [of citation_data] assms(2) by simp
  have mla: "\<exists>s. format_mla citation_data = Inr s"
    by (simp add: format_mla_def a py_split_def Let_def)
  have bluebook: "\<exists>s. format_bluebook citation_data = Inr s"
    by (simp add: format_bluebook_def t p py_upper_def concat_str_def Let_def)
  from chicago mla bluebook assms(1) show ?thesis
    by (simp add: format_citation_def)
qed

lemma format_citation_no_fields:
  assumes "\<And>k. get_or_empty citation_data k = PyStr []"
  shows "format_citation citation_data ''chicago'' = Inr '', <em></em>.''"
    and "format_citation citation_data ''mla'' = Inr ''. <em></em>.''"
    and "format_citation citation_data ''apa'' = Inr '' <em></em>.''"
    and "format_citation citation_data ''bluebook'' = Inr ''UNTITLED.''"
  by (simp_all add: format_citation_def format_chicago_def format_mla_def format_apa_def
        format_bluebook_def assms truthy_def py_str_def)

text \<open>
  Claim C2, at an author with two spaces in a row: the APA style takes the first character
  of every part of the name but the last, one part is empty, and formatting raises
  \<open>IndexError\<close>.
\<close>

theorem format_apa_raises:
  "format_citation [(''author'', PyStr ''John  Smith''), (''title'', PyStr ''Things'')] ''apa''
     = Inl IndexError"
  by code_simp

theorem format_chicago_separators_counterexample:
  "format_chicago [(''author'', PyStr ''Smith''), (''title'', PyStr ''Things''),
                   (''place'', PyStr ''Paris''), (''year'', PyStr ''1999'')]
     = Inr ''Smith, <em>Things</em> (Paris: 1999).''"
  by code_simp

text \<open>
  Claim C5, as amended: when place and publisher hold texts, what the Chicago style
  writes always ends with the group in parentheses, the page and a full stop as the rule
  of \<open>chicago_tail\<close> lays them out: the group is there exactly when place, publisher
  or year is present; in it the colon follows the place exactly when the place is present
  and the publisher or the year is, and the comma follows the publisher exactly when
  publisher and year are both present; the comma before the page is there exactly when the
  page is present. When author and title are both present, what stands before is the
  author, a comma and a space, and the title in emphasis marks.
\<close>

theorem format_chicago_layout:
  assumes "is_text (get_or_empty citation_data ''place'')"
    and "is_text (get_or_empty citation_data ''publisher'')"
  shows "\<exists>out. format_chicago citation_data = Inr out
           \<and> suffix (chicago_tail citation_data) out
           \<and> (truthy (get_or_empty citation_data ''author'')
                \<and> truthy (get_or_empty citation_data ''title'')
              \<longrightarrow> out = py_str (get_or_empty citation_data ''author'') @ '', <em>''
                         @ py_str (get_or_empty citation_data ''title'') @ ''</em>''
                         @ chicago_tail citation_data)"
proof -
  let ?head = "py_str (get_or_empty citation_data ''author'') @ '', <em>''
               @ py_str (get_or_empty citation_data ''title'') @ ''</em>''"
  have out: "format_chicago citation_data = Inr (?head @ chicago_tail citation_data)"
    using format_chicago_tail [OF assms] by simp
  have "suffix (chicago_tail citation_data) (?head @ chicago_tail citation_data)"
    by (rule suffixI) (rule refl)
  with out show ?thesis by simp
qed

theorem format_chicago_layout_witness:
  "is_text (get_or_empty [(''author'', PyStr ''Smith''), (''title'', PyStr ''Things''),
                          (''publisher'', PyStr ''Acme''), (''page'', PyStr ''42'')] ''place'')
   \<and> is_text (get_or_empty [(''author'', PyStr ''Smith''), (''title'', PyStr ''Things''),
                          (''publisher'', PyStr ''Acme''), (''page'', PyStr ''42'')] ''publisher'')
   \<and> format_chicago [(''author'', PyStr ''Smith''), (''title'', PyStr ''Things''),
                     (''publisher'', PyStr ''Acme''), (''page'', PyStr ''42'')]
       = Inr ''Smith, <em>Things</em> (Acme), 42.''"
proof -
  let ?d = "[(''author'', PyStr ''Smith''), (''title'', PyStr ''Things''),
             (''publisher'', PyStr ''Acme''), (''page'', PyStr ''42'')]"
  have place: "is_text (get_or_empty ?d ''place'')"
    and publisher: "is_text (get_or_empty ?d ''publisher'')"
    by code_simp+
  have fields: "get_or_empty ?d ''author'' = PyStr ''Smith''"
      "get_or_empty ?d ''title'' = PyStr ''Things''"
    by code_simp+
  have tail: "chicago_tail ?d = '' (Acme), 42.''"
    by code_simp
  from format_chicago_layout [OF place publisher] fields tail
  have "format_chicago ?d = Inr ''Smith, <em>Things</em> (Acme), 42.''"
    by (auto simp: truthy_def py_str_def)
  with place publisher show ?thesis by blast
qed


section \<open>Properties of the lookup and of the merge\<close>

text \<open>
  The lookup returns \<open>None\<close> at once when neither author nor title is present, and it
  returns \<open>None\<close>, raising nothing, when the request raises (a timeout, a transport
  failure), when the response is not successful, and when the body of a successful
  response is not JSON.
\<close>

lemma lookup_citation_no_result:
  "(\<not> truthy author \<and> \<not> truthy title
      \<longrightarrow> lookup_citation requests_get author title = None)
   \<and> (requests_get (strip (py_str (or_empty author) @ '' '' @ py_str (or_empty title)))
        = Raises e
      \<longrightarrow> lookup_citation requests_get author title = None)
   \<and> (requests_get (strip (py_str (or_empty author) @ '' '' @ py_str (or_empty title)))
        = Response False content
      \<longrightarrow> lookup_citation requests_get author title = None)
   \<and> (requests_get (strip (py_str (or_empty author) @ '' '' @ py_str (or_empty title)))
        = Response True NotJson
      \<longrightarrow> lookup_citation requests_get author title = None)"
  by (simp add: lookup_citation_def lookup_attempt_def)

text \<open>
  With the search index out of reach the document with the one note \<open>Smith, Things\<close>
  is processed from the parsed fields.
\<close>

lemma process_document_lookup_down:
  "process_document (\<lambda>query. Raises RequestException) toxml_plain
       (Zip [(''word'', Directory [(''endnotes.xml'', File (Xml one_note))])]) ''chicago'' False
     = (Success 1 [\<lparr>log_id = ''1'', log_original = ''Smith, Things'',
                     log_formatted = ''Smith, <em>Things</em>.''\<rparr>],
        Some (Directory
                [(''word'',
                  Directory
                    [(''endnotes.xml'',
                      File (Xml (Element ''w:endnotes'' [(''xmlns:w'', wordprocessingml)]
                                   [Element ''w:endnote'' [(''w:id'', ''1'')]
                                      [Element ''w:p'' []
                                         [Element ''w:r'' []
                                            [Element ''w:t'' []
                                               [Data ''Smith, Things.'']]]]])))])]))"
  by code_simp

text \<open>
  Claim C7, at a response whose body is JSON of another shape than the program expects:
  for the note \<open>Smith, Things\<close> the index answers with a document whose publisher is
  the list \<open>[5]\<close> and whose place is \<open>["X"]\<close>. The lookup does not return \<open>None\<close>:
  it returns a dictionary with the number 5 as publisher. The merge adopts it, the
  Chicago style appends the publisher to a text, which raises \<open>TypeError\<close>, and
  processing the document fails, whatever would have been written.
\<close>

theorem lookup_failure_fails_document:
  "lookup_citation ill_typed_answer (PyStr ''Smith'') (PyStr ''Things'')
     = Some [(''author'', PyStr ''Smith''), (''title'', PyStr ''Things''),
             (''publisher'', PyInt 5), (''place'', PyStr ''X''), (''year'', PyNone)]
   \<and> process_document ill_typed_answer toxml
         (Zip [(''word'', Directory [(''endnotes.xml'', File (Xml one_note))])]) ''chicago'' False
       = (Failure (Str_of TypeError), None)"
  by code_simp

lemma map_of_merge_item:
  "map_of (merge_item (k, v) parsed) key
     = (if key = k \<and> truthy v \<and> \<not> truthy (dict_get parsed k) then Some v
        else map_of parsed key)"
  by (simp add: merge_item_def update_conv')

text \<open>
  Claim C4: merging a lookup result (a dictionary, so its keys are distinct) into the
  parsed fields leaves every field that the parse populated as it is, and gives a field
  that the parse left empty the value of the lookup exactly when that value is not empty.
  Empty is what the program tests: a value that is false (\<open>None\<close>, the empty text, zero,
  an empty list).
\<close>

theorem merge_lookup_policy:
  assumes "distinct (map fst lookup_result)"
  shows "map_of (merge_lookup parsed lookup_result) key
           = (if \<not> truthy (dict_get parsed key) \<and> truthy (dict_get lookup_result key)
              then Some (dict_get lookup_result key)
              else map_of parsed key)"
  using assms unfolding merge_lookup_def
proof (induction lookup_result arbitrary: parsed)
  case Nil
  then show ?case by (simp add: dict_get_def truthy_def)
next
  case (Cons item rest)
  obtain k v where item: "item = (k, v)" by (cases item)
  from Cons.prems item have fresh: "k \<notin> fst ` set rest" and rest: "distinct (map fst rest)"
    by auto
  show ?case
  proof (cases "key = k")
    case True
    with fresh have "map_of rest key = None"
      by (simp add: map_of_eq_None_iff)
    then have "dict_get rest key = PyNone" by (simp add: dict_get_def)
    with Cons.IH [OF rest, of "merge_item (k, v) parsed"] True item show ?thesis
      by (simp add: map_of_merge_item dict_get_def truthy_def)
  next
    case False
    then have "dict_get (merge_item (k, v) parsed) key = dict_get parsed key"
      by (simp add: dict_get_def map_of_merge_item)
    with Cons.IH [OF rest, of "merge_item (k, v) parsed"] False item show ?thesis
      by (simp add: map_of_merge_item dict_get_def)
  qed
qed

theorem merge_lookup_policy_witness:
  "distinct (map fst [(''author'', PyStr ''J. Smith''), (''title'', PyStr ''B''),
                      (''place'', PyNone), (''year'', PyInt 0)])
   \<and> map_of (merge_lookup
                [(''author'', PyStr ''Smith''), (''title'', PyNone), (''year'', PyNone)]
                [(''author'', PyStr ''J. Smith''), (''title'', PyStr ''B''),
                 (''place'', PyNone), (''year'', PyInt 0)])
         ''author''
       = Some (PyStr ''Smith'')
   \<and> map_of (merge_lookup
                [(''author'', PyStr ''Smith''), (''title'', PyNone), (''year'', PyNone)]
                [(''author'', PyStr ''J. Smith''), (''title'', PyStr ''B''),
                 (''place'', PyNone), (''year'', PyInt 0)])
         ''title''
       = Some (PyStr ''B'')
   \<and> map_of (merge_lookup
                [(''author'', PyStr ''Smith''), (''title'', PyNone), (''year'', PyNone)]
                [(''author'', PyStr ''J. Smith''), (''title'', PyStr ''B''),
                 (''place'', PyNone), (''year'', PyInt 0)])
         ''year''
       = Some PyNone"
proof -
  let ?parsed = "[(''author'', PyStr ''Smith''), (''title'', PyNone), (''year'', PyNone)]"
  let ?found = "[(''author'', PyStr ''J. Smith''), (''title'', PyStr ''B''),
                 (''place'', PyNone), (''year'', PyInt 0)]"
  have keys: "distinct (map fst ?found)"
    by simp
  from merge_lookup_policy [OF keys, of ?parsed "''author''"]
       merge_lookup_policy [OF keys, of ?parsed "''title''"]
       merge_lookup_policy [OF keys, of ?parsed "''year''"]
       keys
  show ?thesis by (simp add: dict_get_def truthy_def)
qed

section \<open>Properties of reading and writing the endnotes\<close>

subsection \<open>Node values and shape\<close>

lemma nodeValue_Nil: "nodeValue n [] = (case n of Data v \<Rightarrow> Some v | Element _ _ _ \<Rightarrow> None)"
  by (simp add: nodeValue_def split: node.splits)

lemma nodeValue_Cons_Element:
  "nodeValue (Element name a cs) (j # q) = (if j < length cs then nodeValue (cs ! j) q else None)"
  by (simp add: nodeValue_def)

lemma nodeValue_Cons_Data: "nodeValue (Data w) (j # q) = None"
  by (simp add: nodeValue_def)

lemma nodeValue_set_nodeValue:
  "nodeValue (set_nodeValue r v n) q
     = (if q = r \<and> nodeValue n r \<noteq> None then Some v else nodeValue n q)"
proof (induction r arbitrary: n q)
  case Nil
  show ?case
    by (cases n; cases q) (simp_all add: nodeValue_Nil nodeValue_Cons_Element nodeValue_Cons_Data)
next
  case (Cons i r)
  show ?case
  proof (cases n)
    case (Data w)
    then show ?thesis by (simp add: nodeValue_Cons_Data)
  next
    case (Element name a cs)
    show ?thesis
    proof (cases q)
      case Nil
      with Element show ?thesis by (simp add: nodeValue_Nil)
    next
      case (Cons j q')
      with Element Cons.IH show ?thesis
        by (simp add: nodeValue_Cons_Element nth_list_update)
    qed
  qed
qed

lemma node_at_set_nodeValue_other:
  "\<not> prefix q r \<Longrightarrow> node_at (set_nodeValue r v n) q = node_at n q"
proof (induction r arbitrary: n q)
  case Nil
  then obtain j q' where "q = j # q'" by (cases q) auto
  then show ?case by (cases n) simp_all
next
  case (Cons i r)
  from Cons.prems obtain j q' where q: "q = j # q'" by (cases q) auto
  show ?case
  proof (cases n)
    case (Data w)
    then show ?thesis by simp
  next
    case (Element name a cs)
    show ?thesis
    proof (cases "j = i")
      case True
      with Cons.prems q have "\<not> prefix q' r" by simp
      from Cons.IH [OF this] Element q True show ?thesis by simp
    next
      case False
      with Element q show ?thesis by simp
    qed
  qed
qed

lemma skel_set_nodeValue: "skel (set_nodeValue r v n) = skel n"
proof (induction r arbitrary: n)
  case Nil
  show ?case by (cases n) simp_all
next
  case (Cons i r)
  show ?case
  proof (cases n)
    case (Data w)
    then show ?thesis by simp
  next
    case (Element name a cs)
    have "i < length cs \<Longrightarrow> (map skel cs)[i := skel (cs ! i)] = map skel cs"
      by (metis length_map list_update_id nth_map)
    with Element Cons.IH show ?thesis by (simp add: map_update)
  qed
qed

lemma node_at_skel: "node_at (skel n) r = map_option skel (node_at n r)"
proof (induction r arbitrary: n)
  case Nil
  show ?case by simp
next
  case (Cons i r)
  then show ?case by (cases n) simp_all
qed

lemma tagged_skel:
  "tagged name (skel n) = tagged name n"
  "tagged_from name k (map skel cs) = tagged_from name k cs"
  by (induction name n and name k cs rule: tagged_tagged_from.induct) simp_all

lemma skel_Element_eq:
  "skel m = Element n a cs' \<Longrightarrow> \<exists>cs. m = Element n a cs \<and> map skel cs = cs'"
  by (cases m) auto

lemma skel_Data_eq: "skel m = Data w \<Longrightarrow> \<exists>v. m = Data v"
  by (cases m) auto

lemma same_shape_cases:
  assumes "skel a = skel b"
  obtains (absent) "node_at a r = None" "node_at b r = None"
    | (data) v w where "node_at a r = Some (Data v)" "node_at b r = Some (Data w)"
    | (element) n at cs cs' where "node_at a r = Some (Element n at cs)"
        "node_at b r = Some (Element n at cs')" "map skel cs = map skel cs'"
proof -
  from assms have eq: "map_option skel (node_at a r) = map_option skel (node_at b r)"
    by (metis node_at_skel)
  show ?thesis
  proof (cases "node_at a r")
    case None
    with eq have "node_at b r = None" by simp
    with None show ?thesis by (rule absent)
  next
    case (Some m)
    with eq obtain m' where b: "node_at b r = Some m'" and sk: "skel m = skel m'"
      by (cases "node_at b r") auto
    show ?thesis
    proof (cases m)
      case (Data v)
      with sk obtain w where "m' = Data w" by (cases m') auto
      with Some b Data show ?thesis by (auto intro: data)
    next
      case (Element n at cs)
      with sk obtain cs' where "m' = Element n at cs'" "map skel cs = map skel cs'"
        by (cases m') auto
      with Some b Element show ?thesis by (auto intro: element)
    qed
  qed
qed

lemma same_shape_getAttribute:
  assumes "skel a = skel b"
  shows "getAttribute a e name = getAttribute b e name"
  using same_shape_cases [OF assms, of e]
  by cases (simp_all add: getAttribute_def)

lemma same_shape_firstChild:
  assumes "skel a = skel b"
  shows "firstChild a e = firstChild b e"
  using same_shape_cases [OF assms, of e, case_names absent data element]
proof cases
  case (element n at cs cs')
  from element(3) have "cs = [] \<longleftrightarrow> cs' = []" by (metis map_is_Nil_conv)
  with element show ?thesis by (cases cs; cases cs') (simp_all add: firstChild_def)
qed (simp_all add: firstChild_def)

lemma same_shape_elements_in:
  assumes "skel a = skel b"
  shows "getElementsByTagName_in a e name = getElementsByTagName_in b e name"
  using same_shape_cases [OF assms, of e, case_names absent data element]
proof cases
  case (element n at cs cs')
  from element(3) have "tagged_from name 0 cs = tagged_from name 0 cs'"
    using tagged_skel(2) [of name 0 cs] tagged_skel(2) [of name 0 cs'] by simp
  with element show ?thesis by (simp add: getElementsByTagName_in_def)
qed (simp_all add: getElementsByTagName_in_def)

lemma same_shape_elements:
  assumes "skel a = skel b"
  shows "getElementsByTagName a name = getElementsByTagName b name"
  using assms tagged_skel(1) [of name a] tagged_skel(1) [of name b]
  by (simp add: getElementsByTagName_def)

lemma same_shape_nodeValue_None:
  assumes "skel a = skel b"
  shows "nodeValue a r = None \<longleftrightarrow> nodeValue b r = None"
  using same_shape_cases [OF assms, of r]
  by cases (simp_all add: nodeValue_def)

subsection \<open>References\<close>

lemma tagged_distinct:
  "distinct (tagged name n)"
  "distinct (tagged_from name k cs) \<and> (\<forall>r \<in> set (tagged_from name k cs). \<exists>j q. r = j # q \<and> k \<le> j)"
proof (induction name n and name k cs rule: tagged_tagged_from.induct)
  case (1 name n a cs)
  then show ?case by auto
next
  case (2 name v)
  show ?case by simp
next
  case (3 name i)
  show ?case by simp
next
  case (4 name i c cs)
  have "distinct (map ((#) i) (tagged name c))"
    using 4(1) by (simp add: distinct_map)
  moreover have "set (map ((#) i) (tagged name c)) \<inter> set (tagged_from name (Suc i) cs) = {}"
    using 4(2) by fastforce
  moreover have "\<forall>r \<in> set (tagged_from name (Suc i) cs). \<exists>j q. r = j # q \<and> i \<le> j"
    using 4(2) by fastforce
  ultimately show ?case using 4(2) by auto
qed

lemma elements_distinct: "distinct (getElementsByTagName tree name)"
  by (simp add: getElementsByTagName_def tagged_distinct(1))

lemma elements_in_distinct: "distinct (getElementsByTagName_in tree e name)"
  by (auto simp: getElementsByTagName_in_def distinct_map tagged_distinct(2) inj_on_def
           split: option.splits node.splits)

lemma elements_in_prefix:
  "t \<in> set (getElementsByTagName_in tree e name) \<Longrightarrow> prefix e t"
  by (auto simp: getElementsByTagName_in_def split: option.splits node.splits)

lemma firstChild_Some: "firstChild tree t = Some c \<Longrightarrow> c = t @ [0]"
  by (auto simp: firstChild_def split: option.splits node.splits list.splits)

lemma prefix_comparable: "prefix q (e @ x) \<Longrightarrow> prefix q e \<or> prefix e q"
  by (metis prefix_append prefixI)

subsection \<open>Clearing the text runs\<close>

lemma skel_clear_text: "skel (clear_text t tree) = skel tree"
  by (simp add: clear_text_def skel_set_nodeValue split: option.splits)

lemma skel_fold_clear_text: "skel (fold clear_text ts tree) = skel tree"
  by (induction ts arbitrary: tree) (simp_all add: skel_clear_text)

lemma nodeValue_clear_text:
  "nodeValue (clear_text t tree) q
     = (if firstChild tree t = Some q \<and> nodeValue tree q \<noteq> None then Some []
        else nodeValue tree q)"
  by (simp add: clear_text_def nodeValue_set_nodeValue split: option.splits)

lemma nodeValue_fold_clear_text:
  "nodeValue (fold clear_text ts tree) q
     = (if (\<exists>t \<in> set ts. firstChild tree t = Some q) \<and> nodeValue tree q \<noteq> None then Some []
        else nodeValue tree q)"
proof (induction ts arbitrary: tree)
  case Nil
  show ?case by simp
next
  case (Cons t ts)
  have shape: "skel (clear_text t tree) = skel tree" by (rule skel_clear_text)
  have fc: "firstChild (clear_text t tree) t' = firstChild tree t'" for t'
    by (rule same_shape_firstChild [OF shape])
  have nn: "nodeValue (clear_text t tree) q = None \<longleftrightarrow> nodeValue tree q = None"
    by (rule same_shape_nodeValue_None [OF shape])
  show ?case
    using Cons.IH [of "clear_text t tree"] nn
    by (simp add: fc nodeValue_clear_text)
qed

lemma node_at_fold_clear_text:
  "(\<forall>t \<in> set ts. \<not> prefix q (t @ [0])) \<Longrightarrow> node_at (fold clear_text ts tree) q = node_at tree q"
proof (induction ts arbitrary: tree)
  case Nil
  show ?case by simp
next
  case (Cons t ts)
  have "node_at (clear_text t tree) q = node_at tree q"
  proof (cases "firstChild tree t")
    case None
    then show ?thesis by (simp add: clear_text_def)
  next
    case (Some c)
    with firstChild_Some have "c = t @ [0]" by simp
    with Cons.prems Some show ?thesis
      by (simp add: clear_text_def node_at_set_nodeValue_other)
  qed
  with Cons show ?case by simp
qed

subsection \<open>Rewriting one endnote\<close>

lemma update_endnote_cases:
  assumes "update_endnote m e tree = Inr tree'"
  obtains (skipped) "map_of m (getAttribute tree e ''w:id'') = None" "tree' = tree"
    | (no_runs) fmt where "map_of m (getAttribute tree e ''w:id'') = Some fmt"
        "getElementsByTagName_in tree e ''w:t'' = []" "tree' = tree"
    | (rewritten) fmt t0 rest where "map_of m (getAttribute tree e ''w:id'') = Some fmt"
        "getElementsByTagName_in tree e ''w:t'' = t0 # rest"
        "firstChild tree t0 = Some (t0 @ [0])"
        "tree' = set_nodeValue (t0 @ [0]) (strip_em fmt)
                   (fold clear_text (getElementsByTagName_in tree e ''w:t'') tree)"
proof (cases "map_of m (getAttribute tree e ''w:id'')")
  case None
  with assms have "tree' = tree" by (simp add: update_endnote_def)
  with None show ?thesis by (rule skipped)
next
  case (Some fmt)
  let ?ts = "getElementsByTagName_in tree e ''w:t''"
  let ?tree1 = "fold clear_text ?ts tree"
  have shape: "skel ?tree1 = skel tree" by (rule skel_fold_clear_text)
  have same: "getElementsByTagName_in ?tree1 e ''w:t'' = ?ts"
    by (rule same_shape_elements_in [OF shape])
  show ?thesis
  proof (cases ?ts)
    case Nil
    with assms Some same have "tree' = tree" by (simp add: update_endnote_def)
    with Some Nil show ?thesis by (rule no_runs)
  next
    case (Cons t0 rest)
    have fc: "firstChild ?tree1 t0 = firstChild tree t0"
      by (rule same_shape_firstChild [OF shape])
    from assms Some same Cons fc obtain c where c: "firstChild tree t0 = Some c"
      and res: "tree' = set_nodeValue c (strip_em fmt) ?tree1"
      by (auto simp: update_endnote_def Let_def split: option.splits)
    from c have "c = t0 @ [0]" by (rule firstChild_Some)
    with Some Cons c res show ?thesis by (auto intro: rewritten)
  qed
qed

lemma skel_update_endnote:
  assumes "update_endnote m e tree = Inr tree'"
  shows "skel tree' = skel tree"
  using assms
proof (cases rule: update_endnote_cases)
  case (rewritten fmt t0 rest)
  from rewritten(4) show ?thesis
    by (simp only: skel_set_nodeValue skel_fold_clear_text)
qed simp_all

lemma nodeValue_update_endnote_other:
  assumes "update_endnote m e tree = Inr tree'" and "\<not> prefix e q"
  shows "nodeValue tree' q = nodeValue tree q"
  using assms(1)
proof (cases rule: update_endnote_cases)
  case (rewritten fmt t0 rest)
  let ?ts = "getElementsByTagName_in tree e ''w:t''"
  have away: "q \<noteq> t @ [0]" if "t \<in> set ?ts" for t
  proof
    assume "q = t @ [0]"
    moreover from that have "prefix e t" by (rule elements_in_prefix)
    ultimately have "prefix e q" by (simp add: prefix_prefix)
    with assms(2) show False by simp
  qed
  have "t0 \<in> set ?ts" using rewritten(2) by simp
  then have "q \<noteq> t0 @ [0]" by (rule away)
  moreover have "\<not> (\<exists>t \<in> set ?ts. firstChild tree t = Some q)"
    using away firstChild_Some by blast
  ultimately show ?thesis
    using rewritten(4) by (simp add: nodeValue_set_nodeValue nodeValue_fold_clear_text)
qed simp_all

lemma node_at_update_endnote_other:
  assumes "update_endnote m e tree = Inr tree'" and "\<not> prefix e q" and "\<not> prefix q e"
  shows "node_at tree' q = node_at tree q"
  using assms(1)
proof (cases rule: update_endnote_cases)
  case (rewritten fmt t0 rest)
  let ?ts = "getElementsByTagName_in tree e ''w:t''"
  have away: "\<not> prefix q (t @ [0])" if "t \<in> set ?ts" for t
  proof
    assume q: "prefix q (t @ [0])"
    from that have "prefix e t" by (rule elements_in_prefix)
    then obtain x where "t = e @ x" by (auto simp: prefix_def)
    with q have "prefix q (e @ (x @ [0]))" by simp
    then have "prefix q e \<or> prefix e q" by (rule prefix_comparable)
    with assms(2,3) show False by simp
  qed
  have "t0 \<in> set ?ts" using rewritten(2) by simp
  then have "\<not> prefix q (t0 @ [0])" by (rule away)
  then show ?thesis
    using rewritten(4) away by (simp add: node_at_set_nodeValue_other node_at_fold_clear_text)
qed simp_all

lemma join_text_empty: "(\<forall>v \<in> set vs. v = Some []) \<Longrightarrow> join_text vs = Inr []"
  by (induction vs) auto

lemma text_of_update_endnote:
  assumes upd: "update_endnote m e tree = Inr tree'"
    and given: "map_of m (getAttribute tree e ''w:id'') = Some fmt"
    and runs: "getElementsByTagName_in tree e ''w:t'' \<noteq> []"
    and vals: "\<forall>t \<in> set (getElementsByTagName_in tree e ''w:t''). text_of tree t \<noteq> None"
  shows "join_text (map (text_of tree') (getElementsByTagName_in tree e ''w:t''))
           = Inr (strip_em fmt)"
  using upd
proof (cases rule: update_endnote_cases)
  case skipped
  with given show ?thesis by simp
next
  case (no_runs fmt')
  with runs show ?thesis by simp
next
  case (rewritten fmt' t0 rest)
  let ?ts = "getElementsByTagName_in tree e ''w:t''"
  let ?tree1 = "fold clear_text ?ts tree"
  from rewritten(1) given have same: "fmt' = fmt" by simp
  have shape: "skel tree' = skel tree" using upd by (rule skel_update_endnote)
  have fc: "firstChild tree' t = firstChild tree t" for t
    by (rule same_shape_firstChild [OF shape])
  have nv: "nodeValue tree' q
              = (if q = t0 @ [0] \<and> nodeValue tree (t0 @ [0]) \<noteq> None then Some (strip_em fmt)
                 else if (\<exists>t \<in> set ?ts. firstChild tree t = Some q) \<and> nodeValue tree q \<noteq> None
                 then Some [] else nodeValue tree q)" for q
  proof -
    have a: "nodeValue tree' q
               = (if q = t0 @ [0] \<and> nodeValue ?tree1 (t0 @ [0]) \<noteq> None then Some (strip_em fmt)
                  else nodeValue ?tree1 q)"
      using rewritten(4) same by (simp only: nodeValue_set_nodeValue)
    have b: "nodeValue ?tree1 (t0 @ [0]) = None \<longleftrightarrow> nodeValue tree (t0 @ [0]) = None"
      by (rule same_shape_nodeValue_None [OF skel_fold_clear_text])
    have c: "nodeValue ?tree1 q
               = (if (\<exists>t \<in> set ?ts. firstChild tree t = Some q) \<and> nodeValue tree q \<noteq> None
                  then Some [] else nodeValue tree q)"
      by (rule nodeValue_fold_clear_text)
    show ?thesis by (simp only: a b c)
  qed
  have t0: "t0 \<in> set ?ts" using rewritten(2) by simp
  from vals t0 rewritten(3) have "nodeValue tree (t0 @ [0]) \<noteq> None"
    by (auto simp: text_of_def)
  then have first: "text_of tree' t0 = Some (strip_em fmt)"
    using rewritten(3) by (simp add: text_of_def fc nv)
  have others: "text_of tree' t = Some []" if t: "t \<in> set rest" for t
  proof (cases "firstChild tree t")
    case None
    then show ?thesis by (simp add: text_of_def fc)
  next
    case (Some c)
    then have c: "c = t @ [0]" by (rule firstChild_Some)
    from t rewritten(2) have "t \<in> set ?ts" by simp
    with vals Some have some: "nodeValue tree c \<noteq> None" by (auto simp: text_of_def)
    from elements_in_distinct [of tree e "''w:t''"] rewritten(2) t have "t \<noteq> t0" by auto
    with c have "c \<noteq> t0 @ [0]" by simp
    moreover have "\<exists>t \<in> set ?ts. firstChild tree t = Some c"
      using \<open>t \<in> set ?ts\<close> Some by blast
    ultimately show ?thesis using Some some by (simp add: text_of_def fc nv)
  qed
  then have "join_text (map (text_of tree') rest) = Inr []"
    by (intro join_text_empty) auto
  with first rewritten(2) show ?thesis by simp
qed

subsection \<open>Rewriting all endnotes\<close>

lemma fold_err_append:
  "fold_err f (xs @ ys) s = (case fold_err f xs s of Inl e \<Rightarrow> Inl e | Inr s' \<Rightarrow> fold_err f ys s')"
  by (induction xs arbitrary: s) (auto split: sum.splits)

lemma skel_fold_update:
  "fold_err (update_endnote m) es tree = Inr tree' \<Longrightarrow> skel tree' = skel tree"
proof (induction es arbitrary: tree)
  case Nil
  then show ?case by simp
next
  case (Cons e es)
  then obtain tree1 where 1: "update_endnote m e tree = Inr tree1"
    and 2: "fold_err (update_endnote m) es tree1 = Inr tree'"
    by (auto split: sum.splits)
  from Cons.IH [OF 2] skel_update_endnote [OF 1] show ?case by simp
qed

lemma nodeValue_fold_update_other:
  "fold_err (update_endnote m) es tree = Inr tree' \<Longrightarrow> \<forall>e \<in> set es. \<not> prefix e q
     \<Longrightarrow> nodeValue tree' q = nodeValue tree q"
proof (induction es arbitrary: tree)
  case Nil
  then show ?case by simp
next
  case (Cons e es)
  then obtain tree1 where 1: "update_endnote m e tree = Inr tree1"
    and 2: "fold_err (update_endnote m) es tree1 = Inr tree'"
    by (auto split: sum.splits)
  from Cons.prems(2) have "\<not> prefix e q" and rest: "\<forall>e \<in> set es. \<not> prefix e q" by simp_all
  with Cons.IH [OF 2 rest] nodeValue_update_endnote_other [OF 1] show ?case by simp
qed

lemma node_at_fold_update_other:
  "fold_err (update_endnote m) es tree = Inr tree'
     \<Longrightarrow> \<forall>e \<in> set es. map_of m (getAttribute tree e ''w:id'') \<noteq> None
                        \<longrightarrow> \<not> prefix e q \<and> \<not> prefix q e
     \<Longrightarrow> node_at tree' q = node_at tree q"
proof (induction es arbitrary: tree)
  case Nil
  then show ?case by simp
next
  case (Cons e es)
  then obtain tree1 where 1: "update_endnote m e tree = Inr tree1"
    and 2: "fold_err (update_endnote m) es tree1 = Inr tree'"
    by (auto split: sum.splits)
  have shape: "skel tree1 = skel tree" using 1 by (rule skel_update_endnote)
  have ids: "getAttribute tree1 e' ''w:id'' = getAttribute tree e' ''w:id''" for e'
    by (rule same_shape_getAttribute [OF shape])
  have step: "node_at tree1 q = node_at tree q"
  proof (cases "map_of m (getAttribute tree e ''w:id'')")
    case None
    with 1 show ?thesis by (cases rule: update_endnote_cases) simp_all
  next
    case (Some fmt)
    with Cons.prems(2) have "\<not> prefix e q" "\<not> prefix q e" by simp_all
    with 1 show ?thesis by (rule node_at_update_endnote_other)
  qed
  from Cons.prems(2) have "\<forall>e \<in> set es. map_of m (getAttribute tree1 e ''w:id'') \<noteq> None
                        \<longrightarrow> \<not> prefix e q \<and> \<not> prefix q e"
    by (simp add: ids)
  from Cons.IH [OF 2 this] step show ?case by simp
qed

subsection \<open>Reading after rewriting\<close>

lemma join_text_Some: "join_text vs = Inr s \<Longrightarrow> None \<notin> set vs"
proof (induction vs arbitrary: s)
  case Nil
  show ?case by simp
next
  case (Cons v vs)
  then show ?case by (cases v) (auto split: sum.splits)
qed

lemma extract_endnote_cases:
  assumes "extract_endnote tree e acc = Inr acc'"
  obtains (skipped) "getAttribute tree e ''w:id'' = [] \<or> getAttribute tree e ''w:id'' = ''-1''
                       \<or> getAttribute tree e ''w:id'' = ''0''" "acc' = acc"
    | (read) s where "getAttribute tree e ''w:id'' \<noteq> []" "getAttribute tree e ''w:id'' \<noteq> ''-1''"
        "getAttribute tree e ''w:id'' \<noteq> ''0''"
        "join_text (map (text_of tree) (getElementsByTagName_in tree e ''w:t'')) = Inr s"
        "acc' = AList.update (getAttribute tree e ''w:id'') s acc"
  using assms
  by (auto simp: extract_endnote_def Let_def split: if_splits sum.splits)

lemma text_of_same:
  assumes "skel a = skel b" and "nodeValue a (t @ [0]) = nodeValue b (t @ [0])"
  shows "text_of a t = text_of b t"
proof (cases "firstChild b t")
  case None
  with same_shape_firstChild [OF assms(1), of t] show ?thesis by (simp add: text_of_def)
next
  case (Some c)
  then have "c = t @ [0]" by (rule firstChild_Some)
  with Some same_shape_firstChild [OF assms(1), of t] assms(2) show ?thesis
    by (simp add: text_of_def)
qed

lemma text_after_update:
  assumes flat: "flat_notes tree"
    and upd: "fold_err (update_endnote m) (getElementsByTagName tree ''w:endnote'') tree = Inr tree'"
    and e: "e \<in> set (getElementsByTagName tree ''w:endnote'')"
    and vals: "\<forall>t \<in> set (getElementsByTagName_in tree e ''w:t''). text_of tree t \<noteq> None"
    and runs: "map_of m (getAttribute tree e ''w:id'') \<noteq> None
                 \<longrightarrow> getElementsByTagName_in tree e ''w:t'' \<noteq> []"
  shows "join_text (map (text_of tree') (getElementsByTagName_in tree e ''w:t''))
           = (case map_of m (getAttribute tree e ''w:id'') of
                Some fmt \<Rightarrow> Inr (strip_em fmt)
              | None \<Rightarrow> join_text (map (text_of tree) (getElementsByTagName_in tree e ''w:t'')))"
proof -
  let ?es = "getElementsByTagName tree ''w:endnote''"
  let ?ts = "getElementsByTagName_in tree e ''w:t''"
  from e obtain es1 es2 where split: "?es = es1 @ e # es2" by (auto dest: split_list)
  have "distinct ?es" by (rule elements_distinct)
  with split have fresh: "e \<notin> set es1" "e \<notin> set es2" by auto
  from upd split obtain ta tb where
        1: "fold_err (update_endnote m) es1 tree = Inr ta"
    and 2: "update_endnote m e ta = Inr tb"
    and 3: "fold_err (update_endnote m) es2 tb = Inr tree'"
    by (auto simp: fold_err_append split: sum.splits)
  have sa: "skel ta = skel tree" using 1 by (rule skel_fold_update)
  have sb: "skel tb = skel ta" using 2 by (rule skel_update_endnote)
  have sc: "skel tree' = skel tb" using 3 by (rule skel_fold_update)
  have apart: "\<not> prefix e' (t @ [0])" if "t \<in> set ?ts" "e' \<in> set es1 \<union> set es2" for t e'
  proof
    assume p: "prefix e' (t @ [0])"
    from that(1) have "prefix e (t @ [0])" by (simp add: elements_in_prefix prefix_prefix)
    with p have "prefix e e' \<or> prefix e' e" by (metis prefix_same_cases)
    moreover from that(2) split have "e' \<in> set ?es" by auto
    ultimately have "e' = e" using flat e unfolding flat_notes_def by blast
    with that(2) fresh show False by auto
  qed
  have before: "text_of ta t = text_of tree t" if "t \<in> set ?ts" for t
  proof (rule text_of_same [OF sa])
    from that apart have "\<forall>e' \<in> set es1. \<not> prefix e' (t @ [0])" by auto
    with 1 show "nodeValue ta (t @ [0]) = nodeValue tree (t @ [0])"
      by (rule nodeValue_fold_update_other)
  qed
  have after: "text_of tree' t = text_of tb t" if "t \<in> set ?ts" for t
  proof (rule text_of_same [OF sc])
    from that apart have "\<forall>e' \<in> set es2. \<not> prefix e' (t @ [0])" by auto
    with 3 show "nodeValue tree' (t @ [0]) = nodeValue tb (t @ [0])"
      by (rule nodeValue_fold_update_other)
  qed
  have ts: "getElementsByTagName_in ta e ''w:t'' = ?ts"
    by (rule same_shape_elements_in [OF sa])
  have ident: "getAttribute ta e ''w:id'' = getAttribute tree e ''w:id''"
    by (rule same_shape_getAttribute [OF sa])
  have last: "map (text_of tree') ?ts = map (text_of tb) ?ts"
    using after by simp
  show ?thesis
  proof (cases "map_of m (getAttribute tree e ''w:id'')")
    case None
    with 2 ident have "tb = ta" by (cases rule: update_endnote_cases) simp_all
    with before after have same: "map (text_of tree') ?ts = map (text_of tree) ?ts" by simp
    show ?thesis unfolding same None by simp
  next
    case (Some fmt)
    from vals before have "\<forall>t \<in> set ?ts. text_of ta t \<noteq> None" by simp
    moreover from runs Some have "?ts \<noteq> []" by simp
    ultimately have "join_text (map (text_of tb) ?ts) = Inr (strip_em fmt)"
      using text_of_update_endnote [OF 2, of fmt] Some ident ts by simp
    then show ?thesis unfolding last Some by simp
  qed
qed

lemma update_map_values:
  "AList.update k (h k v) (map (\<lambda>(k, v). (k, h k v)) al)
     = map (\<lambda>(k, v). (k, h k v)) (AList.update k v al)"
  by (induction al) auto

lemma extract_after_update:
  assumes "fold_err (extract_endnote a) es acc = Inr notes"
    and "skel b = skel a"
    and "\<forall>e \<in> set es. \<forall>s. join_text (map (text_of a) (getElementsByTagName_in a e ''w:t'')) = Inr s
           \<longrightarrow> getAttribute a e ''w:id'' \<noteq> [] \<longrightarrow> getAttribute a e ''w:id'' \<noteq> ''-1''
           \<longrightarrow> getAttribute a e ''w:id'' \<noteq> ''0''
           \<longrightarrow> join_text (map (text_of b) (getElementsByTagName_in a e ''w:t''))
                 = Inr (h (getAttribute a e ''w:id'') s)"
  shows "fold_err (extract_endnote b) es (map (\<lambda>(k, v). (k, h k v)) acc)
           = Inr (map (\<lambda>(k, v). (k, h k v)) notes)"
  using assms(1,3)
proof (induction es arbitrary: acc)
  case Nil
  then show ?case by simp
next
  case (Cons e es)
  then obtain acc1 where 1: "extract_endnote a e acc = Inr acc1"
    and 2: "fold_err (extract_endnote a) es acc1 = Inr notes"
    by (auto split: sum.splits)
  have ident: "getAttribute b e ''w:id'' = getAttribute a e ''w:id''"
    by (rule same_shape_getAttribute [OF assms(2)])
  have ts: "getElementsByTagName_in b e ''w:t'' = getElementsByTagName_in a e ''w:t''"
    by (rule same_shape_elements_in [OF assms(2)])
  have "extract_endnote b e (map (\<lambda>(k, v). (k, h k v)) acc) = Inr (map (\<lambda>(k, v). (k, h k v)) acc1)"
    using 1
  proof (cases rule: extract_endnote_cases)
    case skipped
    then show ?thesis by (auto simp: extract_endnote_def ident)
  next
    case (read s)
    with Cons.prems(2)
    have "join_text (map (text_of b) (getElementsByTagName_in a e ''w:t''))
            = Inr (h (getAttribute a e ''w:id'') s)"
      by simp
    with read show ?thesis
      by (simp add: extract_endnote_def ident ts update_map_values)
  qed
  moreover from Cons.prems(2) Cons.IH [OF 2]
  have "fold_err (extract_endnote b) es (map (\<lambda>(k, v). (k, h k v)) acc1)
          = Inr (map (\<lambda>(k, v). (k, h k v)) notes)"
    by simp
  ultimately show ?case by simp
qed
theorem update_then_extract_counterexample:
  "update_endnotes_xml toxml_plain
       (File (Xml (Element ''w:endnotes'' [(''xmlns:w'', wordprocessingml)]
               [Element ''w:endnote'' [(''w:id'', ''1'')]
                  [Element ''w:p'' []
                     [Element ''w:r'' [] [Element ''w:t'' [] [Data ''Smith, Things, 1999, 42.'']]]]])))
       [(''1'', ''Smith, <em>Things</em> (1999), 42.'')]
     = Inr (Xml (Element ''w:endnotes'' [(''xmlns:w'', wordprocessingml)]
                   [Element ''w:endnote'' [(''w:id'', ''1'')]
                      [Element ''w:p'' []
                         [Element ''w:r'' []
                            [Element ''w:t'' [] [Data ''Smith, Things (1999), 42.'']]]]]))
   \<and> extract_endnotes
         (File (Xml (Element ''w:endnotes'' [(''xmlns:w'', wordprocessingml)]
                 [Element ''w:endnote'' [(''w:id'', ''1'')]
                    [Element ''w:p'' []
                       [Element ''w:r'' []
                          [Element ''w:t'' [] [Data ''Smith, Things (1999), 42.'']]]]])))
       = Inr [(''1'', ''Smith, Things (1999), 42.'')]"
  by code_simp

text \<open>
  Claim C3, as amended: take an endnotes part in which no \<open>w:endnote\<close> element lies
  inside another, on which reading succeeds and writing succeeds, and a mapping such that
  every \<open>w:endnote\<close> element whose id it holds has at least one \<open>w:t\<close> element. Then
  the tree that writing hands to \<open>toxml\<close> reads as follows: the note ids are those that
  reading returned before, in the same order; for a note id in the mapping the text is the
  supplied text with the marks \<open><em>\<close> and \<open></em>\<close> removed, and for a note id not
  in the mapping it is the text read before. Reading the file after writing returns the
  same whenever the file reads as the tree written does.
\<close>

theorem update_then_extract:
  assumes flat: "flat_notes tree"
    and ext: "extract_endnotes (File (Xml tree)) = Inr endnotes"
    and upd: "update_endnotes_xml toxml (File (Xml tree)) formatted_endnotes = Inr written"
    and runs: "\<forall>e \<in> set (getElementsByTagName tree ''w:endnote'').
                 map_of formatted_endnotes (getAttribute tree e ''w:id'') \<noteq> None
                   \<longrightarrow> getElementsByTagName_in tree e ''w:t'' \<noteq> []"
  shows "\<exists>tree'.
           fold_err (update_endnote formatted_endnotes)
               (getElementsByTagName tree ''w:endnote'') tree = Inr tree'
           \<and> toxml tree' = Inr written
           \<and> extract_endnotes (File (Xml tree'))
               = Inr (map (\<lambda>(note_id, note_text).
                             (note_id, case map_of formatted_endnotes note_id of
                                         Some formatted_text \<Rightarrow> strip_em formatted_text
                                       | None \<Rightarrow> note_text))
                        endnotes)
           \<and> (extract_endnotes (File written) = extract_endnotes (File (Xml tree'))
                \<longrightarrow> extract_endnotes (File written)
                      = Inr (map (\<lambda>(note_id, note_text).
                                    (note_id, case map_of formatted_endnotes note_id of
                                                Some formatted_text \<Rightarrow> strip_em formatted_text
                                              | None \<Rightarrow> note_text))
                               endnotes))"
proof -
  let ?es = "getElementsByTagName tree ''w:endnote''"
  let ?h = "\<lambda>k v. case map_of formatted_endnotes k of Some fmt \<Rightarrow> strip_em fmt | None \<Rightarrow> v"
  from upd obtain tree' where tree': "fold_err (update_endnote formatted_endnotes) ?es tree = Inr tree'"
    and written: "toxml tree' = Inr written"
    by (auto simp: update_endnotes_xml_def read_text_def parseString_def split: sum.splits)
  from ext have ext': "fold_err (extract_endnote tree) ?es [] = Inr endnotes"
    by (simp add: extract_endnotes_def read_text_def parseString_def)
  have shape: "skel tree' = skel tree" using tree' by (rule skel_fold_update)
  have es: "getElementsByTagName tree' ''w:endnote'' = ?es"
    by (rule same_shape_elements [OF shape])
  have texts: "join_text (map (text_of tree') (getElementsByTagName_in tree e ''w:t''))
                 = Inr (?h (getAttribute tree e ''w:id'') s)"
    if e: "e \<in> set ?es"
      and s: "join_text (map (text_of tree) (getElementsByTagName_in tree e ''w:t'')) = Inr s"
    for e s
  proof -
    from s have "None \<notin> set (map (text_of tree) (getElementsByTagName_in tree e ''w:t''))"
      by (rule join_text_Some)
    then have "\<forall>t \<in> set (getElementsByTagName_in tree e ''w:t''). text_of tree t \<noteq> None"
      by force
    moreover from runs e
    have "map_of formatted_endnotes (getAttribute tree e ''w:id'') \<noteq> None
            \<longrightarrow> getElementsByTagName_in tree e ''w:t'' \<noteq> []"
      by simp
    ultimately show ?thesis
      using text_after_update [OF flat tree' e] s by (simp split: option.splits)
  qed
  have "fold_err (extract_endnote tree') ?es (map (\<lambda>(k, v). (k, ?h k v)) [])
          = Inr (map (\<lambda>(k, v). (k, ?h k v)) endnotes)"
    using ext' shape
  proof (rule extract_after_update)
    show "\<forall>e \<in> set ?es. \<forall>s. join_text (map (text_of tree) (getElementsByTagName_in tree e ''w:t'')) = Inr s
           \<longrightarrow> getAttribute tree e ''w:id'' \<noteq> [] \<longrightarrow> getAttribute tree e ''w:id'' \<noteq> ''-1''
           \<longrightarrow> getAttribute tree e ''w:id'' \<noteq> ''0''
           \<longrightarrow> join_text (map (text_of tree') (getElementsByTagName_in tree e ''w:t''))
                 = Inr (?h (getAttribute tree e ''w:id'') s)"
      using texts by blast
  qed
  with es have memory: "extract_endnotes (File (Xml tree')) = Inr (map (\<lambda>(k, v). (k, ?h k v)) endnotes)"
    by (simp add: extract_endnotes_def read_text_def parseString_def)
  from tree' written memory show ?thesis by auto
qed

theorem update_then_extract_witness:
  "flat_notes example_notes
   \<and> extract_endnotes (File (Xml example_notes))
       = Inr [(''1'', ''Smith, Things, 1999, 42.''), (''2'', ''See above'')]
   \<and> (\<exists>written.
         update_endnotes_xml toxml_plain (File (Xml example_notes))
             [(''1'', ''<em>T</em>''), (''7'', ''none'')]
           = Inr written
         \<and> extract_endnotes (File written) = Inr [(''1'', ''T''), (''2'', ''See above'')])"
proof -
  let ?m = "[(''1'', ''<em>T</em>''), (''7'', ''none'')]"
  let ?loop = "fold_err (update_endnote ?m) (getElementsByTagName example_notes ''w:endnote'')
                 example_notes"
  have flat: "flat_notes example_notes"
    by code_simp
  have ext: "extract_endnotes (File (Xml example_notes))
               = Inr [(''1'', ''Smith, Things, 1999, 42.''), (''2'', ''See above'')]"
    by code_simp
  have runs: "\<forall>e \<in> set (getElementsByTagName example_notes ''w:endnote'').
                map_of ?m (getAttribute example_notes e ''w:id'') \<noteq> None
                  \<longrightarrow> getElementsByTagName_in example_notes e ''w:t'' \<noteq> []"
    by code_simp
  have "\<not> isl (update_endnotes_xml toxml_plain (File (Xml example_notes)) ?m)"
    by code_simp
  then obtain written where
    upd: "update_endnotes_xml toxml_plain (File (Xml example_notes)) ?m = Inr written"
    by (cases "update_endnotes_xml toxml_plain (File (Xml example_notes)) ?m") auto
  have reads: "(case ?loop of
                 Inl e \<Rightarrow> False
               | Inr tree' \<Rightarrow>
                   (case toxml_plain tree' of
                      Inl e \<Rightarrow> False
                    | Inr file \<Rightarrow> extract_endnotes (File file) = extract_endnotes (File (Xml tree'))))"
    by code_simp
  have result: "map (\<lambda>(note_id, note_text).
               (note_id, case map_of ?m note_id of
                           Some formatted_text \<Rightarrow> strip_em formatted_text
                         | None \<Rightarrow> note_text))
          [(''1'', ''Smith, Things, 1999, 42.''), (''2'', ''See above'')]
        = [(''1'', ''T''), (''2'', ''See above'')]"
    by code_simp
  from update_then_extract [OF flat ext upd runs] obtain tree' where
        loop: "?loop = Inr tree'"
    and stored: "toxml_plain tree' = Inr written"
    and "extract_endnotes (File written) = extract_endnotes (File (Xml tree'))
           \<longrightarrow> extract_endnotes (File written)
                 = Inr (map (\<lambda>(note_id, note_text).
                               (note_id, case map_of ?m note_id of
                                           Some formatted_text \<Rightarrow> strip_em formatted_text
                                         | None \<Rightarrow> note_text))
                          [(''1'', ''Smith, Things, 1999, 42.''), (''2'', ''See above'')])"
    by blast
  moreover from reads loop stored
  have "extract_endnotes (File written) = extract_endnotes (File (Xml tree'))"
    by simp
  ultimately have "extract_endnotes (File written) = Inr [(''1'', ''T''), (''2'', ''See above'')]"
    unfolding result by blast
  with flat ext upd show ?thesis by blast
qed

subsection \<open>Note ids\<close>

lemma extract_keys:
  "fold_err (extract_endnote tree) es acc = Inr notes
     \<Longrightarrow> fst ` set notes \<subseteq> fst ` set acc \<union> {k. k \<noteq> [] \<and> k \<noteq> ''-1'' \<and> k \<noteq> ''0''}"
proof (induction es arbitrary: acc)
  case Nil
  then show ?case by simp
next
  case (Cons e es)
  then obtain acc1 where 1: "extract_endnote tree e acc = Inr acc1"
    and 2: "fold_err (extract_endnote tree) es acc1 = Inr notes"
    by (auto split: sum.splits)
  from 1 have "fst ` set acc1 \<subseteq> fst ` set acc \<union> {k. k \<noteq> [] \<and> k \<noteq> ''-1'' \<and> k \<noteq> ''0''}"
    by (cases rule: extract_endnote_cases) (auto simp: dom_update)
  with Cons.IH [OF 2] show ?case by blast
qed

lemma process_keys:
  "fold_err (process_endnote requests_get citation_style) endnotes state = Inr state'
     \<Longrightarrow> fst ` set (fst state') \<subseteq> fst ` set (fst state) \<union> fst ` set endnotes"
proof (induction endnotes arbitrary: state)
  case Nil
  then show ?case by simp
next
  case (Cons item endnotes)
  then obtain state1 where 1: "process_endnote requests_get citation_style item state = Inr state1"
    and 2: "fold_err (process_endnote requests_get citation_style) endnotes state1 = Inr state'"
    by (auto split: sum.splits)
  from 1 obtain formatted where "fst state1 = AList.update (fst item) formatted (fst state)"
    by (cases item; cases state)
       (auto simp: process_endnote_def Let_def split: sum.splits)
  then have "fst ` set (fst state1) \<subseteq> fst ` set (fst state) \<union> {fst item}"
    by (simp add: dom_update)
  with Cons.IH [OF 2] show ?case by auto
qed

lemma entry_at_write_at:
  "entry_at item path = Some (File old)
     \<Longrightarrow> entry_at (write_at path content item) path = Some (File content)"
proof (induction path arbitrary: item)
  case Nil
  then show ?case by simp
next
  case (Cons name path)
  show ?case
  proof (cases item)
    case (File c)
    with Cons.prems show ?thesis by simp
  next
    case (Directory items)
    with Cons.prems obtain below where below: "map_of items name = Some below"
      and at: "entry_at below path = Some (File old)"
      by (auto split: option.splits)
    from Cons.IH [OF at] Directory below show ?thesis
      by (simp add: update_conv')
  qed
qed

theorem reserved_ids_skipped_counterexample:
  "getAttribute nested_notes [0, 0] ''w:id'' = ''0''
   \<and> node_at nested_notes [0, 0]
       = Some (Element ''w:endnote'' [(''w:id'', ''0'')] [Element ''w:t'' [] [Data ''more'']])
   \<and> process_document (\<lambda>query. Raises RequestException) toxml_plain
         (Zip [(''word'', Directory [(''endnotes.xml'', File (Xml nested_notes))])])
         ''chicago'' False
       = (Success 1 [\<lparr>log_id = ''1'', log_original = ''more'', log_formatted = '', <em></em>.''\<rparr>],
          Some (Directory
                  [(''word'',
                    Directory
                      [(''endnotes.xml'',
                        File (Xml (Element ''w:endnotes'' [(''xmlns:w'', wordprocessingml)]
                                     [Element ''w:endnote'' [(''w:id'', ''1'')]
                                        [Element ''w:endnote'' [(''w:id'', ''0'')]
                                           [Element ''w:t'' [] [Data '', .'']]]])))])]))"
  by code_simp

text \<open>
  Claim C9, as amended: the reserved ids \<open>-1\<close> and \<open>0\<close> are never among the note ids
  that reading returns. When processing a document writes its output, the endnotes file
  of the output is what \<open>toxml\<close> gives for a tree that has the same \<open>w:endnote\<close>
  elements as the input, and in which every one of them that carries a reserved id and
  stands alone is, with all it contains, as it was parsed: the write-back assigns nothing
  inside it.
\<close>

theorem reserved_ids_skipped:
  "(extract_endnotes endnotes_file = Inr endnotes
      \<longrightarrow> ''-1'' \<notin> fst ` set endnotes \<and> ''0'' \<notin> fst ` set endnotes)
   \<and> (process_document requests_get toxml (Zip unpacked) citation_style use_incipit
          = (result, Some packed)
        \<and> entry_at (Directory unpacked) [''word'', ''endnotes.xml''] = Some (File (Xml tree))
      \<longrightarrow> (\<exists>formatted_endnotes tree' written.
             fold_err (update_endnote formatted_endnotes)
                 (getElementsByTagName tree ''w:endnote'') tree = Inr tree'
             \<and> toxml tree' = Inr written
             \<and> entry_at packed [''word'', ''endnotes.xml''] = Some (File written)
             \<and> getElementsByTagName tree' ''w:endnote'' = getElementsByTagName tree ''w:endnote''
             \<and> (\<forall>e \<in> set (getElementsByTagName tree ''w:endnote'').
                   getAttribute tree e ''w:id'' \<in> {''-1'', ''0''} \<and> stands_alone tree e
                     \<longrightarrow> node_at tree' e = node_at tree e)))"
proof (intro conjI impI)
  assume "extract_endnotes endnotes_file = Inr endnotes"
  then obtain t where
    "fold_err (extract_endnote t) (getElementsByTagName t ''w:endnote'') [] = Inr endnotes"
    by (auto simp: extract_endnotes_def split: sum.splits)
  from extract_keys [OF this]
  show "''-1'' \<notin> fst ` set endnotes" and "''0'' \<notin> fst ` set endnotes"
    by auto
next
  let ?es = "getElementsByTagName tree ''w:endnote''"
  let ?path = "[''word'', ''endnotes.xml'']"
  assume run: "process_document requests_get toxml (Zip unpacked) citation_style use_incipit
                 = (result, Some packed)
               \<and> entry_at (Directory unpacked) [''word'', ''endnotes.xml''] = Some (File (Xml tree))"
  then have at: "entry_at (Directory unpacked) ?path = Some (File (Xml tree))" by simp
  from run obtain extracted formatted processing_log written where
        ext: "extract_endnotes (File (Xml tree)) = Inr extracted"
    and fmt: "fold_err (process_endnote requests_get citation_style) extracted ([], [])
                = Inr (formatted, processing_log)"
    and upd: "update_endnotes_xml toxml (File (Xml tree)) formatted = Inr written"
    and packed: "packed = write_at ?path written (Directory unpacked)"
    unfolding process_document_def Let_def
    by (auto split: sum.splits prod.splits option.splits)
  from upd obtain tree' where tree': "fold_err (update_endnote formatted) ?es tree = Inr tree'"
    and written: "toxml tree' = Inr written"
    by (auto simp: update_endnotes_xml_def read_text_def parseString_def split: sum.splits)
  from ext have "fold_err (extract_endnote tree) ?es [] = Inr extracted"
    by (simp add: extract_endnotes_def read_text_def parseString_def)
  from extract_keys [OF this] process_keys [OF fmt]
  have keys: "fst ` set formatted \<subseteq> {k. k \<noteq> [] \<and> k \<noteq> ''-1'' \<and> k \<noteq> ''0''}"
    by auto
  have shape: "skel tree' = skel tree" using tree' by (rule skel_fold_update)
  have same_elements: "getElementsByTagName tree' ''w:endnote'' = ?es"
    by (rule same_shape_elements [OF shape])
  have kept: "node_at tree' q = node_at tree q"
    if reserved: "getAttribute tree q ''w:id'' \<in> {''-1'', ''0''}" and alone: "stands_alone tree q"
    for q
    using tree'
  proof (rule node_at_fold_update_other)
    show "\<forall>e \<in> set ?es. map_of formatted (getAttribute tree e ''w:id'') \<noteq> None
            \<longrightarrow> \<not> prefix e q \<and> \<not> prefix q e"
    proof (intro ballI impI)
      fix e
      assume e: "e \<in> set ?es" and "map_of formatted (getAttribute tree e ''w:id'') \<noteq> None"
      then have "getAttribute tree e ''w:id'' \<in> fst ` set formatted"
        by (simp add: map_of_eq_None_iff)
      with keys reserved have "e \<noteq> q" by auto
      with alone e show "\<not> prefix e q \<and> \<not> prefix q e"
        unfolding stands_alone_def by blast
    qed
  qed
  from packed entry_at_write_at [OF at, of written]
  have "entry_at packed ?path = Some (File written)"
    by simp
  with tree' written same_elements kept
  show "\<exists>formatted_endnotes tree' written.
          fold_err (update_endnote formatted_endnotes) ?es tree = Inr tree'
          \<and> toxml tree' = Inr written
          \<and> entry_at packed [''word'', ''endnotes.xml''] = Some (File written)
          \<and> getElementsByTagName tree' ''w:endnote'' = ?es
          \<and> (\<forall>e \<in> set ?es.
                getAttribute tree e ''w:id'' \<in> {''-1'', ''0''} \<and> stands_alone tree e
                  \<longrightarrow> node_at tree' e = node_at tree e)"
    by blast
qed

theorem reserved_ids_skipped_witness:
  "extract_endnotes (File (Xml example_notes))
     = Inr [(''1'', ''Smith, Things, 1999, 42.''), (''2'', ''See above'')]
   \<and> ''-1'' \<notin> fst ` set [(''1'', ''Smith, Things, 1999, 42.''), (''2'', ''See above'')]
   \<and> getAttribute example_notes [1] ''w:id'' = ''0''
   \<and> stands_alone example_notes [1]
   \<and> (\<exists>result packed formatted_endnotes tree' written.
         process_document (\<lambda>query. Raises RequestException) toxml_plain
             (Zip [(''word'', Directory [(''document.xml'', File NotXml),
                                         (''endnotes.xml'', File (Xml example_notes))])])
             ''chicago'' False
           = (result, Some packed)
         \<and> fold_err (update_endnote formatted_endnotes)
               (getElementsByTagName example_notes ''w:endnote'') example_notes = Inr tree'
         \<and> toxml_plain tree' = Inr written
         \<and> entry_at packed [''word'', ''endnotes.xml''] = Some (File written)
         \<and> node_at tree' [1] = node_at example_notes [1]
         \<and> (\<exists>stored. written = Xml stored \<and> node_at stored [1] = node_at example_notes [1]))"
proof -
  let ?unpacked = "[(''word'', Directory [(''document.xml'', File NotXml),
                                          (''endnotes.xml'', File (Xml example_notes))])]"
  let ?run = "process_document (\<lambda>query. Raises RequestException) toxml_plain (Zip ?unpacked)
                ''chicago'' False"
  let ?path = "[''word'', ''endnotes.xml'']"
  have ext: "extract_endnotes (File (Xml example_notes))
               = Inr [(''1'', ''Smith, Things, 1999, 42.''), (''2'', ''See above'')]"
    by code_simp
  have alone: "stands_alone example_notes [1]"
    by code_simp
  have at: "entry_at (Directory ?unpacked) ?path = Some (File (Xml example_notes))"
    by simp
  have e: "[1] \<in> set (getElementsByTagName example_notes ''w:endnote'')"
    by code_simp
  have reserved: "getAttribute example_notes [1] ''w:id'' = ''0''"
    by code_simp
  have on_disk: "(case snd ?run of
                    None \<Rightarrow> False
                  | Some packed \<Rightarrow>
                      (case entry_at packed ?path of
                         Some (File (Xml stored)) \<Rightarrow>
                           node_at stored [1] = node_at example_notes [1]
                       | _ \<Rightarrow> False))"
    by code_simp
  then obtain result packed where run: "?run = (result, Some packed)"
    by (cases ?run) (auto split: option.splits)
  from reserved_ids_skipped
         [of "File (Xml example_notes)"
             "[(''1'', ''Smith, Things, 1999, 42.''), (''2'', ''See above'')]"
             "\<lambda>query. Raises RequestException" toxml_plain ?unpacked "''chicago''" False
             result packed example_notes]
       ext run at
  have ids: "''-1'' \<notin> fst ` set [(''1'', ''Smith, Things, 1999, 42.''), (''2'', ''See above'')]"
    and "\<exists>formatted_endnotes tree' written.
           fold_err (update_endnote formatted_endnotes)
               (getElementsByTagName example_notes ''w:endnote'') example_notes = Inr tree'
           \<and> toxml_plain tree' = Inr written
           \<and> entry_at packed ?path = Some (File written)
           \<and> getElementsByTagName tree' ''w:endnote''
               = getElementsByTagName example_notes ''w:endnote''
           \<and> (\<forall>e \<in> set (getElementsByTagName example_notes ''w:endnote'').
                 getAttribute example_notes e ''w:id'' \<in> {''-1'', ''0''}
                   \<and> stands_alone example_notes e
                   \<longrightarrow> node_at tree' e = node_at example_notes e)"
    by blast+
  then obtain formatted_endnotes tree' written where
        loop: "fold_err (update_endnote formatted_endnotes)
                 (getElementsByTagName example_notes ''w:endnote'') example_notes = Inr tree'"
    and stored: "toxml_plain tree' = Inr written"
    and disk: "entry_at packed ?path = Some (File written)"
    and kept: "\<forall>e \<in> set (getElementsByTagName example_notes ''w:endnote'').
                 getAttribute example_notes e ''w:id'' \<in> {''-1'', ''0''}
                   \<and> stands_alone example_notes e
                   \<longrightarrow> node_at tree' e = node_at example_notes e"
    by blast
  from kept e reserved alone have same: "node_at tree' [1] = node_at example_notes [1]"
    by auto
  from on_disk run disk
  have "\<exists>stored. written = Xml stored \<and> node_at stored [1] = node_at example_notes [1]"
    by (auto split: part.splits)
  with ext ids alone reserved run loop stored disk same show ?thesis by blast
qed


section \<open>Properties of processing a document\<close>

text \<open>
  When the unpacked document has a directory at \<open>word/endnotes.xml\<close>, the path exists,
  opening it raises \<open>IsADirectoryError\<close>, and processing fails with that error.
\<close>

lemma process_document_endnotes_directory:
  assumes "entry_at (Directory unpacked) [''word'', ''endnotes.xml''] = Some (Directory items)"
  shows "process_document requests_get toxml (Zip unpacked) citation_style use_incipit
           = (Failure (Str_of IsADirectoryError), None)"
  using assms by (simp add: process_document_def extract_endnotes_def read_text_def)

text \<open>
  Claim C6: when the unpacked document has nothing at \<open>word/endnotes.xml\<close>, processing
  returns the failure with the message \<open>No endnotes found in document\<close> and writes no
  output archive.
\<close>

theorem process_document_no_endnotes:
  assumes "entry_at (Directory unpacked) [''word'', ''endnotes.xml''] = None"
  shows "process_document requests_get toxml (Zip unpacked) citation_style use_incipit
           = (Failure (Message ''No endnotes found in document''), None)"
  using assms by (simp add: process_document_def)

theorem process_document_no_endnotes_witness:
  "entry_at (Directory [(''word'', Directory [(''document.xml'', File NotXml)])])
       [''word'', ''endnotes.xml''] = None
   \<and> process_document (\<lambda>query. Raises RequestException) toxml_plain
         (Zip [(''word'', Directory [(''document.xml'', File NotXml)])]) ''mla'' True
       = (Failure (Message ''No endnotes found in document''), None)"
proof -
  have absent: "entry_at (Directory [(''word'', Directory [(''document.xml'', File NotXml)])])
                  [''word'', ''endnotes.xml''] = None"
    by simp
  from process_document_no_endnotes
         [of "[(''word'', Directory [(''document.xml'', File NotXml)])]"
             "\<lambda>query. Raises RequestException" toxml_plain "''mla''" True,
          OF absent] absent
  show ?thesis by blast
qed

text \<open>
  Claim C10: two runs of \<open>process_document\<close> on the same upload, with the same style,
  the same answers of the search index and the same serialisation, that differ in
  \<open>use_incipit\<close> only, return the same result and write the same output archive.
\<close>

theorem process_document_ignores_use_incipit:
  "process_document requests_get toxml input_file citation_style True
     = process_document requests_get toxml input_file citation_style False"
  by (simp add: process_document_def)


end
